theory Spec2Isabelle
  imports Complex_Main "HOL-Library.Word"
begin

unbundle bit_operations_syntax

section \<open>Data model (types.ts)\<close>

text \<open>
  A JavaScript string is the list of its code units, \<open>length\<close> being the \<^verbatim>\<open>.length\<close> of
  the source. A \<open>char\<close> holds a code unit below 256, which covers every code unit the
  source itself writes or inspects (the transcript markers, the Base64 alphabet, the
  binary strings of \<^verbatim>\<open>btoa\<close> and \<^verbatim>\<open>atob\<close>, the punctuation of JSON). A \<^verbatim>\<open>Blob\<close> is
  its byte content and its MIME type; \<^verbatim>\<open>new Blob(parts, {type})\<close> concatenates the
  contents of the parts in order. Timestamps are \<^verbatim>\<open>Date.now()\<close> readings: whole
  milliseconds.
\<close>

type_synonym byte = "8 word"

record Blob =
  blob_bytes :: "byte list"
  blob_type :: string

definition blob_size :: "Blob \<Rightarrow> nat" where
  "blob_size b = length (blob_bytes b)"

definition new_Blob :: "Blob list \<Rightarrow> string \<Rightarrow> Blob" where
  "new_Blob parts ty = \<lparr>blob_bytes = concat (map blob_bytes parts), blob_type = ty\<rparr>"

text \<open>
  What \<^verbatim>\<open>JSON.parse\<close> returns: the value \<^verbatim>\<open>analyzeIncident\<close> hands back under the
  static type \<^verbatim>\<open>IncidentAnalysis\<close> (a TypeScript \<^verbatim>\<open>as\<close> cast checks nothing at run time).
  Of the numbers only the integers are represented.
\<close>

datatype json =
    JNull
  | JBool bool
  | JNumber int
  | JString string
  | JArray "json list"
  | JObject "(string \<times> json) list"

text \<open>
  What the source can throw: the two \<^verbatim>\<open>new Error(...)\<close> of \<^verbatim>\<open>analyzeIncident\<close>, a
  rejected file read, a failed service call (with the service's detail), the
  \<^verbatim>\<open>SyntaxError\<close> of \<^verbatim>\<open>JSON.parse\<close>, the \<^verbatim>\<open>InvalidCharacterError\<close> of \<^verbatim>\<open>atob\<close> and
  the \<^verbatim>\<open>NotSupportedError\<close> of \<^verbatim>\<open>createBuffer\<close>.
\<close>

datatype error =
    ApiKeyMissing
  | ReadFailed
  | ServiceFailed string
  | NoResponseText
  | JSONSyntaxError
  | InvalidCharacterError
  | NotSupportedError

record AudioChunk =
  data :: Blob
  timestamp :: int

record SavedIncident =
  incident_id :: string
  incident_timestamp :: int
  durationSeconds :: nat
  blob :: Blob
  analysis :: "json option"

section \<open>The recorder (App): rolling buffer, retroactive save, incident list\<close>

definition BUFFER_DURATION_MS :: int where
  "BUFFER_DURATION_MS = 30 * 60 * 1000"

definition CHUNK_DURATION_MS :: int where
  "CHUNK_DURATION_MS = 1000"

record App =
  apiKey :: string
  showKeyModal :: bool
  incidents :: "SavedIncident list"
  analyzingIds :: "string set"
  bufferSizeSecs :: nat
  audioChunksRef :: "AudioChunk list"

text \<open>
  The pruning loop of \<^verbatim>\<open>recorder.ondataavailable\<close>:
  \<^verbatim>\<open>while (chunks.length > 0 && chunks[0].timestamp < cutoff) chunks.shift()\<close>.
\<close>

fun prune_loop :: "int \<Rightarrow> AudioChunk list \<Rightarrow> AudioChunk list" where
  "prune_loop cutoff [] = []"
| "prune_loop cutoff (c # cs) =
     (if timestamp c < cutoff then prune_loop cutoff cs else c # cs)"

definition prune :: "int \<Rightarrow> AudioChunk list \<Rightarrow> AudioChunk list" where
  "prune now cs = prune_loop (now - BUFFER_DURATION_MS) cs"

text \<open>
  \<^verbatim>\<open>recorder.ondataavailable\<close> at clock reading \<open>now\<close> with payload \<open>d\<close>: an empty
  payload is ignored; otherwise the chunk is pushed at the tail and the buffer pruned.
\<close>

definition ondataavailable :: "int \<Rightarrow> Blob \<Rightarrow> App \<Rightarrow> App" where
  "ondataavailable now d s =
     (if blob_size d > 0
      then s\<lparr>audioChunksRef :=
               prune now (audioChunksRef s @ [\<lparr>data = d, timestamp = now\<rparr>])\<rparr>
      else s)"

text \<open>
  The filter of the buffer-size interval effect:
  \<^verbatim>\<open>chunks.filter(c => now - c.timestamp < BUFFER_DURATION_MS)\<close>.
\<close>

definition validChunks :: "int \<Rightarrow> AudioChunk list \<Rightarrow> AudioChunk list" where
  "validChunks now cs = filter (\<lambda>c. now - timestamp c < BUFFER_DURATION_MS) cs"

text \<open>
  One tick of the interval effect: the buffer is replaced when the filter dropped
  something, and the displayed size is
  \<^verbatim>\<open>Math.floor(validChunks.length * (CHUNK_DURATION_MS / 1000))\<close>.
\<close>

definition bufferSizeTick :: "int \<Rightarrow> App \<Rightarrow> App" where
  "bufferSizeTick now s =
     (let vs = validChunks now (audioChunksRef s);
          s1 = (if length vs \<noteq> length (audioChunksRef s)
                then s\<lparr>audioChunksRef := vs\<rparr> else s)
      in s1\<lparr>bufferSizeSecs :=
               nat \<lfloor>(of_nat (length vs) :: rat) * (of_int CHUNK_DURATION_MS / 1000)\<rfloor>\<rparr>)"

text \<open>
  \<^verbatim>\<open>saveIncident(minutes)\<close> at clock reading \<open>now\<close>; \<open>uuid\<close> is what
  \<^verbatim>\<open>crypto.randomUUID()\<close> returns. The result is the returned incident
  (\<open>None\<close> for \<^verbatim>\<open>null\<close>) and the state after \<^verbatim>\<open>setIncidents\<close>.
\<close>

definition relevantChunks :: "int \<Rightarrow> int \<Rightarrow> AudioChunk list \<Rightarrow> Blob list" where
  "relevantChunks now minutes cs =
     map data (filter (\<lambda>chunk. timestamp chunk \<ge> now - (minutes * 60 * 1000)) cs)"

definition saveIncident :: "int \<Rightarrow> string \<Rightarrow> int \<Rightarrow> App \<Rightarrow> SavedIncident option \<times> App" where
  "saveIncident now uuid minutes s =
     (if length (audioChunksRef s) = 0 then (None, s)
      else
        let rel = relevantChunks now minutes (audioChunksRef s) in
        if length rel = 0 then (None, s)
        else
          let newIncident =
                \<lparr>incident_id = uuid, incident_timestamp = now,
                 durationSeconds = length rel,
                 blob = new_Blob rel ''audio/webm'', analysis = None\<rparr>
          in (Some newIncident, s\<lparr>incidents := newIncident # incidents s\<rparr>))"

text \<open>
  The \<^verbatim>\<open>setIncidents\<close> update of \<^verbatim>\<open>handleAnalyze\<close>:
  \<^verbatim>\<open>prev.map(inc => inc.id === id ? { ...inc, analysis } : inc)\<close>.
\<close>

definition attachAnalysis :: "string \<Rightarrow> json \<Rightarrow> SavedIncident list \<Rightarrow> SavedIncident list" where
  "attachAnalysis i a prev =
     map (\<lambda>inc. if incident_id inc = i then inc\<lparr>analysis := Some a\<rparr> else inc) prev"

text \<open>
  \<^verbatim>\<open>handleAnalyze\<close> is asynchronous: it marks the incident as being analysed, awaits
  \<^verbatim>\<open>analyzeIncident\<close>, and then updates whatever the incident list is by then.
  \<open>handleAnalyze_begin\<close> is the part before the \<^verbatim>\<open>await\<close>; \<open>handleAnalyze_settle\<close>
  is the part after it, given the outcome of the call (\<open>Inl\<close> when it threw).
\<close>

definition handleAnalyze_begin :: "SavedIncident \<Rightarrow> App \<Rightarrow> App" where
  "handleAnalyze_begin incident s =
     (if apiKey s = [] then s\<lparr>showKeyModal := True\<rparr>
      else s\<lparr>analyzingIds := insert (incident_id incident) (analyzingIds s)\<rparr>)"

definition handleAnalyze_settle :: "SavedIncident \<Rightarrow> error + json \<Rightarrow> App \<Rightarrow> App" where
  "handleAnalyze_settle incident outcome s =
     (let s1 = (case outcome of
                  Inr a \<Rightarrow> s\<lparr>incidents := attachAnalysis (incident_id incident) a (incidents s)\<rparr>
                | Inl e \<Rightarrow> s)
      in s1\<lparr>analyzingIds := analyzingIds s1 - {incident_id incident}\<rparr>)"

definition handleDelete :: "string \<Rightarrow> App \<Rightarrow> App" where
  "handleDelete i s = s\<lparr>incidents := filter (\<lambda>inc. incident_id inc \<noteq> i) (incidents s)\<rparr>"

text \<open>
  A recording session as the sequence of its \<^verbatim>\<open>dataavailable\<close> events, each with the
  clock reading at which it fires and its payload; \<open>every_second a b d\<close> is one event per
  second, numbered \<open>a, \<dots>, b - 1\<close>, the \<open>k\<close>-th at \<open>1000 * k\<close> ms with payload \<open>d k\<close>, and
  \<open>chunk_at d k\<close> is the chunk the \<open>k\<close>-th event pushes.
\<close>

fun feed :: "(int \<times> Blob) list \<Rightarrow> App \<Rightarrow> App" where
  "feed [] s = s"
| "feed ((now, d) # es) s = feed es (ondataavailable now d s)"

definition every_second :: "nat \<Rightarrow> nat \<Rightarrow> (nat \<Rightarrow> Blob) \<Rightarrow> (int \<times> Blob) list" where
  "every_second a b d = map (\<lambda>k. (1000 * int k, d k)) [a..<b]"

definition chunk_at :: "(nat \<Rightarrow> Blob) \<Rightarrow> nat \<Rightarrow> AudioChunk" where
  "chunk_at d k = \<lparr>data = d k, timestamp = 1000 * int k\<rparr>"

section \<open>Binary and PCM helpers (utils/audioUtils.ts)\<close>

subsection \<open>The platform's \<^verbatim>\<open>btoa\<close> and \<^verbatim>\<open>atob\<close>\<close>

text \<open>
  A binary string is a string whose code units are all below 256, which is what a
  \<open>char\<close> holds: \<^verbatim>\<open>btoa\<close> throws on any other string, and \<^verbatim>\<open>atob\<close> returns only
  such strings. \<^verbatim>\<open>btoa\<close> is the Base64 encoding of RFC 4648: the bits of the input in
  groups of six (the last group filled with zero bits), each written as a character of
  the alphabet, then \<^verbatim>\<open>=\<close> up to a multiple of four characters.
\<close>

definition b64chars :: string where
  "b64chars = ''ABCDEFGHIJKLMNOPQRSTUVWXYZabcdefghijklmnopqrstuvwxyz0123456789+/''"

definition b64_enc :: "nat \<Rightarrow> char" where
  "b64_enc n = b64chars ! n"

fun index_of :: "'a \<Rightarrow> 'a list \<Rightarrow> nat option" where
  "index_of x [] = None"
| "index_of x (y # ys) = (if x = y then Some 0 else map_option Suc (index_of x ys))"

definition b64_dec :: "char \<Rightarrow> nat option" where
  "b64_dec c = index_of c b64chars"

fun sextets :: "string \<Rightarrow> nat list" where
  "sextets [] = []"
| "sextets [a] =
     (let x = of_char a in [x div 4, (x mod 4) * 16])"
| "sextets [a, b] =
     (let x = of_char a; y = of_char b
      in [x div 4, (x mod 4) * 16 + y div 16, (y mod 16) * 4])"
| "sextets (a # b # c # rest) =
     (let x = of_char a; y = of_char b; z = of_char c
      in [x div 4, (x mod 4) * 16 + y div 16, (y mod 16) * 4 + z div 64, z mod 64]
         @ sextets rest)"

definition btoa :: "string \<Rightarrow> string" where
  "btoa s = map b64_enc (sextets s) @ replicate ((3 - length s mod 3) mod 3) CHR ''=''"

text \<open>
  \<^verbatim>\<open>atob\<close> is the forgiving-base64 decode of the WHATWG Infra standard: ASCII whitespace
  is removed; if the length is then a multiple of four, one or two trailing \<^verbatim>\<open>=\<close> are
  removed; a length of 1 modulo 4 or a character outside the alphabet is an
  \<^verbatim>\<open>InvalidCharacterError\<close>; the characters are then read six bits at a time, every
  full 8 bits giving a byte and the 2 or 4 bits left over being dropped.
\<close>

definition ascii_whitespace :: "char \<Rightarrow> bool" where
  "ascii_whitespace c \<longleftrightarrow> c \<in> {CHR 0x09, CHR 0x0A, CHR 0x0C, CHR 0x0D, CHR '' ''}"

definition strip_padding :: "string \<Rightarrow> string" where
  "strip_padding d =
     (if length d mod 4 = 0
      then (case rev d of
              e1 # e2 # r \<Rightarrow>
                (if e1 = CHR ''='' \<and> e2 = CHR ''='' then rev r
                 else if e1 = CHR ''='' then rev (e2 # r) else d)
            | _ \<Rightarrow> d)
      else d)"

fun octets :: "nat list \<Rightarrow> string" where
  "octets (s1 # s2 # s3 # s4 # rest) =
     [char_of (s1 * 4 + s2 div 16), char_of ((s2 mod 16) * 16 + s3 div 4),
      char_of ((s3 mod 4) * 64 + s4)] @ octets rest"
| "octets [s1, s2, s3] =
     [char_of (s1 * 4 + s2 div 16), char_of ((s2 mod 16) * 16 + s3 div 4)]"
| "octets [s1, s2] = [char_of (s1 * 4 + s2 div 16)]"
| "octets [s1] = []"
| "octets [] = []"

definition atob :: "string \<Rightarrow> error + string" where
  "atob s =
     (let d = strip_padding (filter (\<lambda>c. \<not> ascii_whitespace c) s)
      in if length d mod 4 = 1 then Inl InvalidCharacterError
         else (case those (map b64_dec d) of
                 None \<Rightarrow> Inl InvalidCharacterError
               | Some vs \<Rightarrow> Inr (octets vs)))"

subsection \<open>The conversion pair\<close>

text \<open>
  \<^verbatim>\<open>base64ToUint8Array\<close>: \<^verbatim>\<open>bytes[i] = binaryString.charCodeAt(i)\<close> over the result of
  \<^verbatim>\<open>atob\<close>. \<^verbatim>\<open>uint8ArrayToBase64\<close>: \<^verbatim>\<open>btoa\<close> of the string built with
  \<^verbatim>\<open>String.fromCharCode(bytes[i])\<close>.
\<close>

definition charCodeAt :: "char \<Rightarrow> nat" where
  "charCodeAt c = of_char c"

definition fromCharCode :: "nat \<Rightarrow> char" where
  "fromCharCode n = char_of n"

definition base64ToUint8Array :: "string \<Rightarrow> error + byte list" where
  "base64ToUint8Array base64 =
     (case atob base64 of
        Inl e \<Rightarrow> Inl e
      | Inr binaryString \<Rightarrow> Inr (map (\<lambda>c. of_nat (charCodeAt c)) binaryString))"

definition uint8ArrayToBase64 :: "byte list \<Rightarrow> string" where
  "uint8ArrayToBase64 bytes = btoa (map (\<lambda>b. fromCharCode (unat b)) bytes)"

subsection \<open>Float samples to 16-bit PCM\<close>

text \<open>
  A JavaScript number is not-a-number, an infinity or a finite value. The arithmetic of
  \<^verbatim>\<open>float32ToInt16PCM\<close> on a finite sample is exact: the input is a 32-bit float (24
  significant bits) in \<open>[-1, 1]\<close> after clamping, and its product with \<open>0x8000\<close> or
  \<open>0x7FFF\<close> has at most 39 significant bits, within the 53 of a double. So a finite
  value is modelled by the real number it denotes. Storing into an \<^verbatim>\<open>Int16Array\<close>
  truncates towards zero and wraps modulo \<open>2 ^ 16\<close>; not-a-number and the infinities are
  stored as 0.
\<close>

datatype number = NaN | NegInf | Fin real | PosInf

fun Math_min :: "number \<Rightarrow> number \<Rightarrow> number" where
  "Math_min NaN y = NaN"
| "Math_min x NaN = NaN"
| "Math_min NegInf y = NegInf"
| "Math_min x NegInf = NegInf"
| "Math_min PosInf y = y"
| "Math_min x PosInf = x"
| "Math_min (Fin a) (Fin b) = Fin (min a b)"

fun Math_max :: "number \<Rightarrow> number \<Rightarrow> number" where
  "Math_max NaN y = NaN"
| "Math_max x NaN = NaN"
| "Math_max PosInf y = PosInf"
| "Math_max x PosInf = PosInf"
| "Math_max NegInf y = y"
| "Math_max x NegInf = x"
| "Math_max (Fin a) (Fin b) = Fin (max a b)"

fun less_zero :: "number \<Rightarrow> bool" where
  "less_zero NaN = False"
| "less_zero NegInf = True"
| "less_zero PosInf = False"
| "less_zero (Fin a) = (a < 0)"

text \<open>The comparison \<^verbatim>\<open>x <= y\<close> of two numbers: false when either is not-a-number.\<close>

fun js_le :: "number \<Rightarrow> number \<Rightarrow> bool" where
  "js_le NaN y = False"
| "js_le x NaN = False"
| "js_le NegInf y = True"
| "js_le x PosInf = True"
| "js_le (Fin a) (Fin b) = (a \<le> b)"
| "js_le x y = False"

fun times_const :: "number \<Rightarrow> real \<Rightarrow> number" where
  "times_const (Fin a) k = Fin (a * k)"
| "times_const NaN k = NaN"
| "times_const NegInf k = (if k > 0 then NegInf else if k < 0 then PosInf else NaN)"
| "times_const PosInf k = (if k > 0 then PosInf else if k < 0 then NegInf else NaN)"

definition js_trunc :: "real \<Rightarrow> int" where
  "js_trunc r = (if r \<ge> 0 then \<lfloor>r\<rfloor> else \<lceil>r\<rceil>)"

fun ToInt16 :: "number \<Rightarrow> 16 word" where
  "ToInt16 (Fin r) = word_of_int (js_trunc r)"
| "ToInt16 x = 0"

definition pcm_sample :: "number \<Rightarrow> number" where
  "pcm_sample x =
     (let s = Math_max (Fin (-1)) (Math_min (Fin 1) x)
      in if less_zero s then times_const s 0x8000 else times_const s 0x7FFF)"

definition float32ToInt16PCM :: "number list \<Rightarrow> 16 word list" where
  "float32ToInt16PCM float32Data = map (\<lambda>x. ToInt16 (pcm_sample x)) float32Data"

subsection \<open>PCM bytes to an audio buffer\<close>

text \<open>
  \<^verbatim>\<open>pcmToAudioBuffer\<close> views the bytes as 16-bit samples (two bytes each, low byte first;
  an odd last byte is left out), asks the context for a one-channel buffer of that many
  frames, which the Web Audio API refuses with a \<^verbatim>\<open>NotSupportedError\<close> for zero frames,
  and fills it with \<^verbatim>\<open>sample / 32768\<close>. The buffer's duration is its frame count over
  its sample rate.
\<close>

record AudioBuffer =
  sampleRate :: nat
  channelData :: "real list"

fun int16_view :: "byte list \<Rightarrow> 16 word list" where
  "int16_view (lo # hi # rest) = (ucast lo OR push_bit 8 (ucast hi)) # int16_view rest"
| "int16_view [b] = []"
| "int16_view [] = []"

definition pcmToAudioBuffer :: "byte list \<Rightarrow> nat \<Rightarrow> error + AudioBuffer" where
  "pcmToAudioBuffer pcmData rate =
     (let dataInt16 = int16_view pcmData;
          frameCount = length dataInt16
      in if frameCount = 0 then Inl NotSupportedError
         else Inr \<lparr>sampleRate = rate,
                   channelData = map (\<lambda>v. real_of_int (sint v) / 32768) dataInt16\<rparr>)"

definition duration :: "AudioBuffer \<Rightarrow> real" where
  "duration b = real (length (channelData b)) / real (sampleRate b)"

section \<open>The live session (components/LiveTacticalMonitor.tsx)\<close>

datatype connection = Connecting | Connected | Failed | Disconnected

text \<open>
  An \<^verbatim>\<open>AudioBufferSourceNode\<close>: its identity (the handlers compare nodes with
  \<^verbatim>\<open>!==\<close>), its buffer and the time passed to \<^verbatim>\<open>start\<close>. Times are readings of the output
  context's clock, in seconds, as the real numbers they denote; the rounding of the
  platform's sums of such numbers is not modelled.
\<close>

record AudioBufferSourceNode =
  node_id :: nat
  buffer :: AudioBuffer
  startTime :: real

definition endTime :: "AudioBufferSourceNode \<Rightarrow> real" where
  "endTime n = startTime n + duration (buffer n)"

text \<open>
  The parts of a \<^verbatim>\<open>LiveServerMessage\<close> the handler reads:
  \<^verbatim>\<open>serverContent.interrupted\<close>, \<^verbatim>\<open>serverContent.modelTurn.parts[0].inlineData.data\<close>,
  \<^verbatim>\<open>serverContent.outputTranscription.text\<close> and \<^verbatim>\<open>serverContent.turnComplete\<close>.
\<close>

record LiveServerMessage =
  interrupted :: bool
  inlineData :: "string option"
  outputTranscription :: "string option"
  turnComplete :: bool

text \<open>
  The component's state and refs. \<open>created\<close> counts the source nodes made so far and
  numbers the next one; \<open>stopped\<close> lists the nodes \<^verbatim>\<open>stop()\<close> was called on.
\<close>

record Live =
  status :: connection
  transcription :: string
  nextStartTimeRef :: real
  audioSourcesRef :: "AudioBufferSourceNode list"
  outputContextRef :: bool
  isMounted :: bool
  created :: nat
  stopped :: "nat list"

text \<open>A string in a condition: undefined and the empty string are false.\<close>

fun truthy :: "string option \<Rightarrow> string option" where
  "truthy None = None"
| "truthy (Some s) = (if s = [] then None else Some s)"

definition INTERRUPTED_MARK :: string where
  "INTERRUPTED_MARK = [CHR 0x0A] @ ''[INTERRUPTED]'' @ [CHR 0x0A] @ ''> ''"

definition TURN_MARK :: string where
  "TURN_MARK = [CHR 0x0A, CHR 0x0A] @ ''> ''"

text \<open>\<^verbatim>\<open>newText.slice(-n)\<close>: the last \<open>n\<close> code units.\<close>

definition slice_last :: "nat \<Rightarrow> string \<Rightarrow> string" where
  "slice_last n s = drop (length s - n) s"

text \<open>
  The update of the transcription branch:
  \<^verbatim>\<open>newText.length > 2000 ? "..." + newText.slice(-2000) : newText\<close>.
\<close>

definition appendTranscription :: "string \<Rightarrow> string \<Rightarrow> string" where
  "appendTranscription prev txt =
     (let newText = prev @ txt
      in if length newText > 2000 then ''...'' @ slice_last 2000 newText else newText)"

text \<open>
  Scheduling a decoded clip when the context's clock reads \<open>currentTime\<close>: the node is
  created and pushed, the cursor is raised to \<open>currentTime\<close> if it is behind, the node is
  started at the cursor, and the cursor moves on by the clip's duration.
\<close>

definition scheduleAudio :: "real \<Rightarrow> AudioBuffer \<Rightarrow> Live \<Rightarrow> Live" where
  "scheduleAudio currentTime audioBuffer s =
     (let next = (if nextStartTimeRef s < currentTime then currentTime else nextStartTimeRef s);
          src = \<lparr>node_id = created s, buffer = audioBuffer, startTime = next\<rparr>
      in s\<lparr>created := Suc (created s),
            audioSourcesRef := audioSourcesRef s @ [src],
            nextStartTimeRef := next + duration audioBuffer\<rparr>)"

text \<open>
  \<^verbatim>\<open>onmessage\<close>, with the clock reading of the output context. It returns \<open>Inl\<close> when the
  handler throws (an undecodable payload, or one of fewer than two bytes), which happens
  before it has changed anything.
\<close>

definition onmessage :: "real \<Rightarrow> LiveServerMessage \<Rightarrow> Live \<Rightarrow> error + Live" where
  "onmessage currentTime msg s =
     (if \<not> isMounted s then Inr s
      else if interrupted msg then
        Inr (s\<lparr>stopped := stopped s @ map node_id (audioSourcesRef s),
               audioSourcesRef := [],
               nextStartTimeRef := 0,
               transcription := transcription s @ INTERRUPTED_MARK\<rparr>)
      else
        (case (case truthy (inlineData msg) of
                 Some audioData \<Rightarrow>
                   (if outputContextRef s then
                      (case base64ToUint8Array audioData of
                         Inl e \<Rightarrow> Inl e
                       | Inr pcmData \<Rightarrow>
                           (case pcmToAudioBuffer pcmData 24000 of
                              Inl e \<Rightarrow> Inl e
                            | Inr audioBuffer \<Rightarrow> Inr (scheduleAudio currentTime audioBuffer s)))
                    else Inr s)
               | None \<Rightarrow> Inr s) of
           Inl e \<Rightarrow> Inl e
         | Inr s1 \<Rightarrow>
             (let s2 = (case truthy (outputTranscription msg) of
                          Some txt \<Rightarrow>
                            s1\<lparr>transcription := appendTranscription (transcription s1) txt\<rparr>
                        | None \<Rightarrow> s1);
                  s3 = (if turnComplete msg
                        then s2\<lparr>transcription := transcription s2 @ TURN_MARK\<rparr> else s2)
              in Inr s3)))"

text \<open>\<^verbatim>\<open>src.onended\<close>: the node that ended is filtered out of the scheduled set.\<close>

definition onended :: "nat \<Rightarrow> Live \<Rightarrow> Live" where
  "onended i s = s\<lparr>audioSourcesRef := filter (\<lambda>n. node_id n \<noteq> i) (audioSourcesRef s)\<rparr>"

text \<open>
  The download flow as a sequence of events, each handled to completion before the
  next: a server message (with the clock reading when it is handled) or the end of a
  node's playback. A handler that throws leaves the state as it was.
\<close>

datatype event = Message real LiveServerMessage | Ended nat

fun step :: "event \<Rightarrow> Live \<Rightarrow> Live" where
  "step (Message t msg) s = (case onmessage t msg s of Inl e \<Rightarrow> s | Inr s' \<Rightarrow> s')"
| "step (Ended i) s = onended i s"

fun run :: "event list \<Rightarrow> Live \<Rightarrow> Live" where
  "run [] s = s"
| "run (e # es) s = run es (step e s)"

text \<open>The session once \<^verbatim>\<open>onopen\<close> has run: connected, nothing scheduled, cursor at 0.\<close>

definition opened :: Live where
  "opened = \<lparr>status = Connected, transcription = [], nextStartTimeRef = 0,
             audioSourcesRef = [], outputContextRef = True, isMounted = True,
             created = 0, stopped = []\<rparr>"

definition interruption :: LiveServerMessage where
  "interruption = \<lparr>interrupted = True, inlineData = None, outputTranscription = None,
                   turnComplete = False\<rparr>"

definition turn_completion :: LiveServerMessage where
  "turn_completion = \<lparr>interrupted = False, inlineData = None, outputTranscription = None,
                      turnComplete = True\<rparr>"

definition transcript_fragment :: "string \<Rightarrow> LiveServerMessage" where
  "transcript_fragment txt = \<lparr>interrupted = False, inlineData = None,
                              outputTranscription = Some txt, turnComplete = False\<rparr>"

definition audio_payload :: "string \<Rightarrow> LiveServerMessage" where
  "audio_payload a = \<lparr>interrupted = False, inlineData = Some a, outputTranscription = None,
                      turnComplete = False\<rparr>"

text \<open>What a message does to the transcript once its audio has been handled.\<close>

definition transcript_part :: "LiveServerMessage \<Rightarrow> Live \<Rightarrow> Live" where
  "transcript_part msg s1 =
     (let s2 = (case truthy (outputTranscription msg) of
                  Some txt \<Rightarrow> s1\<lparr>transcription := appendTranscription (transcription s1) txt\<rparr>
                | None \<Rightarrow> s1)
      in if turnComplete msg then s2\<lparr>transcription := transcription s2 @ TURN_MARK\<rparr> else s2)"

text \<open>Every scheduled node ends no later than the cursor.\<close>

definition behind_cursor :: "Live \<Rightarrow> bool" where
  "behind_cursor s \<longleftrightarrow> list_all (\<lambda>n. endTime n \<le> nextStartTimeRef s) (audioSourcesRef s)"

text \<open>An event that schedules no audio: the end of a node, or a message without audio.\<close>

fun schedules_nothing :: "event \<Rightarrow> bool" where
  "schedules_nothing (Ended i) = True"
| "schedules_nothing (Message t msg) = (truthy (inlineData msg) = None)"

section \<open>Batch analysis (services/geminiService.ts)\<close>

subsection \<open>The platform's \<^verbatim>\<open>JSON.parse\<close>, on a part of the grammar\<close>

text \<open>
  A recursive-descent reader of JSON texts built from objects, arrays, strings without
  escapes, integers of magnitude up to \<open>2 ^ 53\<close> (other than \<^verbatim>\<open>-0\<close>), \<^verbatim>\<open>true\<close>,
  \<^verbatim>\<open>false\<close>, \<^verbatim>\<open>null\<close> and whitespace. On such a text it returns the value
  \<^verbatim>\<open>JSON.parse\<close> returns. A text with a string escape, a fraction, an exponent or a
  larger integer is outside this part and gets no value here. The fuel bounds the
  recursion: every call reads a character before it calls again, and the reader starts
  with twice the length of the text.
\<close>

definition is_ws :: "char \<Rightarrow> bool" where
  "is_ws c \<longleftrightarrow> c \<in> {CHR '' '', CHR 0x09, CHR 0x0A, CHR 0x0D}"

definition skip_ws :: "string \<Rightarrow> string" where
  "skip_ws s = dropWhile is_ws s"

definition is_digit :: "char \<Rightarrow> bool" where
  "is_digit c \<longleftrightarrow> 48 \<le> (of_char c :: nat) \<and> (of_char c :: nat) \<le> 57"

definition digits_value :: "string \<Rightarrow> int" where
  "digits_value ds = foldl (\<lambda>acc c. 10 * acc + (of_char c - 48)) 0 ds"

fun parse_string_body :: "string \<Rightarrow> (string \<times> string) option" where
  "parse_string_body [] = None"
| "parse_string_body (c # cs) =
     (if c = CHR 0x22 then Some ([], cs)
      else if c = CHR 0x5C \<or> (of_char c :: nat) < 32 then None
      else (case parse_string_body cs of
              None \<Rightarrow> None
            | Some (str, rest) \<Rightarrow> Some (c # str, rest)))"

definition parse_number :: "string \<Rightarrow> (int \<times> string) option" where
  "parse_number s =
     (let neg = (s \<noteq> [] \<and> hd s = CHR ''-'');
          s1 = (if neg then tl s else s);
          ds = takeWhile is_digit s1;
          rest = dropWhile is_digit s1;
          v = digits_value ds
      in if ds = [] \<or> (length ds > 1 \<and> hd ds = CHR ''0'') then None
         else if rest \<noteq> [] \<and> hd rest \<in> {CHR ''.'', CHR ''e'', CHR ''E''} then None
         else if v > 9007199254740992 \<or> (neg \<and> v = 0) then None
         else Some (if neg then - v else v, rest))"

definition parse_literal :: "string \<Rightarrow> (json \<times> string) option" where
  "parse_literal s =
     (if take 4 s = ''true'' then Some (JBool True, drop 4 s)
      else if take 5 s = ''false'' then Some (JBool False, drop 5 s)
      else if take 4 s = ''null'' then Some (JNull, drop 4 s)
      else (case parse_number s of
              None \<Rightarrow> None
            | Some (n, rest) \<Rightarrow> Some (JNumber n, rest)))"

fun parse_value :: "nat \<Rightarrow> string \<Rightarrow> (json \<times> string) option"
  and parse_elements :: "nat \<Rightarrow> string \<Rightarrow> (json list \<times> string) option"
  and parse_members :: "nat \<Rightarrow> string \<Rightarrow> ((string \<times> json) list \<times> string) option"
where
  "parse_value 0 s = None"
| "parse_value (Suc n) s =
     (case skip_ws s of
        [] \<Rightarrow> None
      | c # r \<Rightarrow>
          if c = CHR ''{'' then
            (case skip_ws r of
               [] \<Rightarrow> None
             | c' # r' \<Rightarrow>
                 if c' = CHR ''}'' then Some (JObject [], r')
                 else (case parse_members n (c' # r') of
                         None \<Rightarrow> None
                       | Some (ms, rest) \<Rightarrow> Some (JObject ms, rest)))
          else if c = CHR ''['' then
            (case skip_ws r of
               [] \<Rightarrow> None
             | c' # r' \<Rightarrow>
                 if c' = CHR '']'' then Some (JArray [], r')
                 else (case parse_elements n (c' # r') of
                         None \<Rightarrow> None
                       | Some (vs, rest) \<Rightarrow> Some (JArray vs, rest)))
          else if c = CHR 0x22 then
            (case parse_string_body r of
               None \<Rightarrow> None
             | Some (str, rest) \<Rightarrow> Some (JString str, rest))
          else parse_literal (c # r))"
| "parse_elements 0 s = None"
| "parse_elements (Suc n) s =
     (case parse_value n s of
        None \<Rightarrow> None
      | Some (v, r) \<Rightarrow>
          (case skip_ws r of
             [] \<Rightarrow> None
           | c # r' \<Rightarrow>
               if c = CHR '','' then
                 (case parse_elements n r' of
                    None \<Rightarrow> None
                  | Some (vs, rest) \<Rightarrow> Some (v # vs, rest))
               else if c = CHR '']'' then Some ([v], r')
               else None))"
| "parse_members 0 s = None"
| "parse_members (Suc n) s =
     (case skip_ws s of
        [] \<Rightarrow> None
      | q # r \<Rightarrow>
          if q \<noteq> CHR 0x22 then None
          else (case parse_string_body r of
                  None \<Rightarrow> None
                | Some (k, r1) \<Rightarrow>
                    (case skip_ws r1 of
                       [] \<Rightarrow> None
                     | c # r2 \<Rightarrow>
                         if c \<noteq> CHR '':'' then None
                         else (case parse_value n r2 of
                                 None \<Rightarrow> None
                               | Some (v, r3) \<Rightarrow>
                                   (case skip_ws r3 of
                                      [] \<Rightarrow> None
                                    | d # r4 \<Rightarrow>
                                        if d = CHR '','' then
                                          (case parse_members n r4 of
                                             None \<Rightarrow> None
                                           | Some (ms, rest) \<Rightarrow> Some ((k, v) # ms, rest))
                                        else if d = CHR ''}'' then Some ([(k, v)], r4)
                                        else None)))))"

definition json_parse :: "string \<Rightarrow> error + json" where
  "json_parse s =
     (case parse_value (2 * length s + 2) s of
        None \<Rightarrow> Inl JSONSyntaxError
      | Some (v, rest) \<Rightarrow> if skip_ws rest = [] then Inr v else Inl JSONSyntaxError)"



subsection \<open>The analysis call\<close>

text \<open>Property lookup on a parsed object: of two members with one name the later wins.\<close>

definition json_field :: "string \<Rightarrow> json \<Rightarrow> json option" where
  "json_field k v = (case v of JObject ms \<Rightarrow> map_of (rev ms) k | _ \<Rightarrow> None)"

fun is_string :: "json option \<Rightarrow> bool" where
  "is_string (Some (JString s)) = True"
| "is_string v = False"

fun is_string_array :: "json option \<Rightarrow> bool" where
  "is_string_array (Some (JArray vs)) = list_all (\<lambda>v. is_string (Some v)) vs"
| "is_string_array v = False"

text \<open>
  The shape of \<^verbatim>\<open>IncidentAnalysis\<close> (types.ts) and of the response schema sent to the
  service: seven required fields.
\<close>

definition is_IncidentAnalysis :: "json \<Rightarrow> bool" where
  "is_IncidentAnalysis v \<longleftrightarrow>
     is_string (json_field ''summary'' v)
   \<and> is_string (json_field ''sentiment'' v)
   \<and> json_field ''threatLevel'' v \<in> Some ` JString ` {''Low'', ''Medium'', ''High'', ''Critical''}
   \<and> is_string_array (json_field ''keyEvents'' v)
   \<and> is_string_array (json_field ''recommendations'' v)
   \<and> is_string (json_field ''currentSituation'' v)
   \<and> is_string_array (json_field ''predictedNextMoves'' v)"

text \<open>
  What the call depends on outside the program: the platform's \<^verbatim>\<open>JSON.parse\<close>, whether
  the \<^verbatim>\<open>FileReader\<close> fails on a blob, and the service behind
  \<^verbatim>\<open>ai.models.generateContent\<close>, which for a MIME type and the encoded audio either
  throws or returns a response whose \<^verbatim>\<open>text\<close> may be undefined.
\<close>

record Platform =
  JSON_parse :: "string \<Rightarrow> error + json"
  readFails :: "Blob \<Rightarrow> bool"
  generateContent :: "string \<Rightarrow> string option \<Rightarrow> error + string option"

text \<open>
  \<^verbatim>\<open>blobToBase64\<close>: the data URL the reader produces, cut at its commas, second piece
  (\<^verbatim>\<open>result.split(',')[1]\<close>); a failed read rejects.
\<close>

definition dataURL :: "Blob \<Rightarrow> string" where
  "dataURL b = ''data:'' @ blob_type b @ '';base64,'' @ uint8ArrayToBase64 (blob_bytes b)"

definition split_comma_1 :: "string \<Rightarrow> string option" where
  "split_comma_1 s =
     (case dropWhile (\<lambda>c. c \<noteq> CHR '','') s of
        [] \<Rightarrow> None
      | c # r \<Rightarrow> Some (takeWhile (\<lambda>c. c \<noteq> CHR '','') r))"

definition blobToBase64 :: "Platform \<Rightarrow> Blob \<Rightarrow> error + string option" where
  "blobToBase64 P b = (if readFails P b then Inl ReadFailed else Inr (split_comma_1 (dataURL b)))"

text \<open>\<^verbatim>\<open>audioBlob.type || "audio/webm"\<close>.\<close>

definition mimeType :: "Blob \<Rightarrow> string" where
  "mimeType b = (if blob_type b = [] then ''audio/webm'' else blob_type b)"

text \<open>
  \<^verbatim>\<open>analyzeIncident\<close>: the key check, the encoding, the service call (whose error the
  \<^verbatim>\<open>catch\<close> rethrows as it is), the check for an empty response text, and
  \<^verbatim>\<open>JSON.parse(text) as IncidentAnalysis\<close>.
\<close>

definition analyzeIncident :: "Platform \<Rightarrow> Blob \<Rightarrow> string \<Rightarrow> error + json" where
  "analyzeIncident P audioBlob key =
     (if key = [] then Inl ApiKeyMissing
      else
        (case blobToBase64 P audioBlob of
           Inl e \<Rightarrow> Inl e
         | Inr base64Audio \<Rightarrow>
             (case generateContent P (mimeType audioBlob) base64Audio of
                Inl e \<Rightarrow> Inl e
              | Inr response_text \<Rightarrow>
                  (case truthy response_text of
                     None \<Rightarrow> Inl NoResponseText
                   | Some t \<Rightarrow> JSON_parse P t))))"

text \<open>A small buffer and application state to run the operations on.\<close>

definition ex_chunks :: "AudioChunk list" where
  "ex_chunks =
     [\<lparr>data = \<lparr>blob_bytes = [1], blob_type = ''audio/webm''\<rparr>, timestamp = 0\<rparr>,
      \<lparr>data = \<lparr>blob_bytes = [2, 3], blob_type = ''audio/webm''\<rparr>, timestamp = 50000\<rparr>,
      \<lparr>data = \<lparr>blob_bytes = [4], blob_type = ''audio/webm''\<rparr>, timestamp = 2000000\<rparr>]"

definition ex_app :: "AudioChunk list \<Rightarrow> App" where
  "ex_app cs = \<lparr>apiKey = ''k'', showKeyModal = False, incidents = [], analyzingIds = {},
               bufferSizeSecs = 0, audioChunksRef = cs\<rparr>"

definition ex_payload :: "nat \<Rightarrow> Blob" where
  "ex_payload k = \<lparr>blob_bytes = [of_nat k], blob_type = ''audio/webm''\<rparr>"

definition ex_samples :: "number list" where
  "ex_samples = [Fin (1 / 2), Fin (- 3), Fin 2, NaN, NegInf]"

definition ex_audio :: string where
  "ex_audio = ''AAABAAIA''"

definition ex_clip :: AudioBuffer where
  "ex_clip = \<lparr>sampleRate = 24000, channelData = [0, 1 / 32768, 1 / 16384]\<rparr>"

definition ex_response :: string where
  "ex_response = ''{'' @ [CHR 0x22] @ ''summary'' @ [CHR 0x22] @ '': ''
                 @ [CHR 0x22] @ ''a quiet room'' @ [CHR 0x22] @ ''}''"

definition ex_platform :: "string option \<Rightarrow> Platform" where
  "ex_platform reply = \<lparr>JSON_parse = json_parse, readFails = (\<lambda>b. False),
                          generateContent = (\<lambda>m d. Inr reply)\<rparr>"

definition ex_incident :: "string \<Rightarrow> json option \<Rightarrow> SavedIncident" where
  "ex_incident i a =
     \<lparr>incident_id = i, incident_timestamp = 2000000, durationSeconds = 1,
      blob = \<lparr>blob_bytes = [4], blob_type = ''audio/webm''\<rparr>, analysis = a\<rparr>"

definition ex_store :: App where
  "ex_store = (ex_app ex_chunks)
     \<lparr>incidents := [ex_incident ''id-2'' None, ex_incident ''id-1'' (Some JNull)]\<rparr>"

section \<open>Retroactive save\<close>

lemma relevantChunks_sorted:
  "sorted (map timestamp cs) \<Longrightarrow>
   sorted (map timestamp (filter (\<lambda>c. timestamp c \<ge> k) cs))"
  by (induction cs) auto

text \<open>
  C1. A retroactive save at clock reading \<open>now\<close> over \<open>minutes\<close> minutes selects exactly
  the buffered fragments with \<open>timestamp \<ge> now - minutes * 60000\<close>, in buffer order (which
  is time order when the buffer is time-ordered). If none qualifies (in particular for an
  empty buffer) it returns null and leaves the state, hence the incident list, as it was.
  Otherwise it returns an incident whose audio is the concatenation of the selected
  payloads in that order, and puts that incident at the head of the incident list.
\<close>

theorem saveIncident_window:
  "(let sel = filter (\<lambda>c. timestamp c \<ge> now - minutes * 60 * 1000) (audioChunksRef s) in
     (sel = [] \<longrightarrow> saveIncident now uuid minutes s = (None, s))
   \<and> (sel \<noteq> [] \<longrightarrow>
        (\<exists>inc. saveIncident now uuid minutes s = (Some inc, s\<lparr>incidents := inc # incidents s\<rparr>)
             \<and> blob_bytes (blob inc) = concat (map (\<lambda>c. blob_bytes (data c)) sel)
             \<and> durationSeconds inc = length sel
             \<and> analysis inc = None))
   \<and> (sorted (map timestamp (audioChunksRef s)) \<longrightarrow> sorted (map timestamp sel)))"
proof -
  define sel where
    "sel = filter (\<lambda>c. timestamp c \<ge> now - minutes * 60 * 1000) (audioChunksRef s)"
  have rel: "relevantChunks now minutes (audioChunksRef s) = map data sel"
    by (simp add: relevantChunks_def sel_def)
  have empty: "sel = [] \<Longrightarrow> saveIncident now uuid minutes s = (None, s)"
    by (simp add: saveIncident_def rel)
  have nonempty: "audioChunksRef s \<noteq> []" if "sel \<noteq> []"
    using that by (auto simp: sel_def)
  have some: "sel \<noteq> [] \<Longrightarrow>
      (\<exists>inc. saveIncident now uuid minutes s = (Some inc, s\<lparr>incidents := inc # incidents s\<rparr>)
           \<and> blob_bytes (blob inc) = concat (map (\<lambda>c. blob_bytes (data c)) sel)
           \<and> durationSeconds inc = length sel
           \<and> analysis inc = None)"
    using nonempty by (simp add: saveIncident_def rel Let_def new_Blob_def comp_def)
  have srt: "sorted (map timestamp (audioChunksRef s)) \<Longrightarrow> sorted (map timestamp sel)"
    unfolding sel_def by (rule relevantChunks_sorted)
  show ?thesis
    unfolding Let_def sel_def [symmetric] using empty some srt by blast
qed

theorem saveIncident_window_witness:
  "saveIncident 2000000 ''id-1'' 1 (ex_app []) = (None, ex_app [])
   \<and> saveIncident 2000000 ''id-1'' 1 (ex_app (take 2 ex_chunks)) = (None, ex_app (take 2 ex_chunks))
   \<and> (\<exists>inc. saveIncident 2000000 ''id-1'' 33 (ex_app ex_chunks)
               = (Some inc, (ex_app ex_chunks)\<lparr>incidents := [inc]\<rparr>)
            \<and> blob_bytes (blob inc) = [2, 3, 4] \<and> durationSeconds inc = 2)
   \<and> sorted (map timestamp ex_chunks)"
  using saveIncident_window [of 2000000 1 "ex_app []" "''id-1''"]
        saveIncident_window [of 2000000 1 "ex_app (take 2 ex_chunks)" "''id-1''"]
        saveIncident_window [of 2000000 33 "ex_app ex_chunks" "''id-1''"]
  by (auto simp: Let_def ex_app_def ex_chunks_def)

section \<open>Pruning the rolling buffer\<close>

lemma prune_loop_sorted_ge:
  "sorted (map timestamp cs) \<Longrightarrow> c \<in> set (prune_loop k cs) \<Longrightarrow> k \<le> timestamp c"
  by (induction cs) (auto split: if_splits)

lemma prune_loop_idem: "prune_loop k (prune_loop k cs) = prune_loop k cs"
  by (induction cs) auto

lemma filter_same_length: "length (filter P xs) = length xs \<Longrightarrow> filter P xs = xs"
  by (metis filter_True length_filter_less less_irrefl)

lemma bufferSizeTick_chunks:
  "audioChunksRef (bufferSizeTick now s) = validChunks now (audioChunksRef s)"
  by (simp add: bufferSizeTick_def Let_def validChunks_def filter_same_length)

lemma bufferSizeTick_size:
  "bufferSizeSecs (bufferSizeTick now s) = length (validChunks now (audioChunksRef s))"
  by (simp add: bufferSizeTick_def Let_def CHUNK_DURATION_MS_def)

text \<open>
  C3. For a buffer whose timestamps are non-decreasing, the pruning loop of the recorder
  leaves no fragment older than \<open>now - BUFFER_DURATION_MS\<close> (30 minutes) and pruning again
  at the same \<open>now\<close> changes nothing. The same holds for the other pruning path, the filter
  of the buffer-size timer (which also drops a fragment exactly 30 minutes old).
\<close>

theorem prune_bounded_idempotent:
  assumes "sorted (map timestamp (audioChunksRef s))"
  shows "(\<forall>c \<in> set (prune now (audioChunksRef s)). \<not> timestamp c < now - BUFFER_DURATION_MS)
       \<and> prune now (prune now (audioChunksRef s)) = prune now (audioChunksRef s)
       \<and> (\<forall>c \<in> set (audioChunksRef (bufferSizeTick now s)).
             \<not> timestamp c < now - BUFFER_DURATION_MS)
       \<and> bufferSizeTick now (bufferSizeTick now s) = bufferSizeTick now s"
proof -
  have a: "\<forall>c \<in> set (prune now (audioChunksRef s)). \<not> timestamp c < now - BUFFER_DURATION_MS"
    using prune_loop_sorted_ge [OF assms] by (fastforce simp: prune_def)
  have b: "prune now (prune now (audioChunksRef s)) = prune now (audioChunksRef s)"
    by (simp add: prune_def prune_loop_idem)
  have c: "\<forall>c \<in> set (audioChunksRef (bufferSizeTick now s)).
             \<not> timestamp c < now - BUFFER_DURATION_MS"
    by (auto simp: bufferSizeTick_chunks validChunks_def)
  have d: "bufferSizeTick now (bufferSizeTick now s) = bufferSizeTick now s"
    by (simp add: bufferSizeTick_def Let_def validChunks_def)
  show ?thesis using a b c d by blast
qed

theorem prune_bounded_idempotent_witness:
  "sorted (map timestamp (audioChunksRef (ex_app ex_chunks)))
   \<and> prune 2000000 (audioChunksRef (ex_app ex_chunks)) = drop 2 ex_chunks
   \<and> list_all (\<lambda>c. \<not> timestamp c < 2000000 - BUFFER_DURATION_MS)
        (prune 2000000 (audioChunksRef (ex_app ex_chunks)))
   \<and> prune 2000000 (prune 2000000 (audioChunksRef (ex_app ex_chunks))) = drop 2 ex_chunks"
  using prune_bounded_idempotent [of "ex_app ex_chunks" 2000000]
  by (simp add: ex_app_def ex_chunks_def prune_def BUFFER_DURATION_MS_def)

section \<open>Attaching an analysis\<close>

text \<open>
  C6. When an analysis arrives for an incident, every incident with that id gets the new
  result in place of whatever was attached before (attaching twice leaves only the second
  result), the list keeps its length and order, every other incident is unchanged, and if
  no incident has the id (it was deleted meanwhile) the list is unchanged.
\<close>

theorem handleAnalyze_overwrites:
  "(let i = incident_id incident;
        prev = incidents s;
        new = incidents (handleAnalyze_settle incident (Inr a) s)
    in length new = length prev
     \<and> (\<forall>k < length prev.
           new ! k = (if incident_id (prev ! k) = i then (prev ! k)\<lparr>analysis := Some a\<rparr>
                      else prev ! k))
     \<and> (i \<notin> incident_id ` set prev \<longrightarrow> new = prev)
     \<and> incidents (handleAnalyze_settle incident (Inr b)
                    (handleAnalyze_settle incident (Inr a) s))
         = incidents (handleAnalyze_settle incident (Inr b) s))"
proof -
  have eq: "incidents (handleAnalyze_settle incident (Inr x) t)
            = attachAnalysis (incident_id incident) x (incidents t)" for x t
    by (simp add: handleAnalyze_settle_def Let_def)
  have absent: "incident_id incident \<notin> incident_id ` set prev \<Longrightarrow>
                attachAnalysis (incident_id incident) a prev = prev" for prev
    by (induction prev) (auto simp: attachAnalysis_def)
  have twice: "attachAnalysis i b (attachAnalysis i a prev) = attachAnalysis i b prev" for i prev
    by (induction prev) (auto simp: attachAnalysis_def)
  show ?thesis
    unfolding Let_def eq twice using absent
    by (simp add: attachAnalysis_def)
qed

theorem handleAnalyze_overwrites_witness:
  "incidents (handleAnalyze_settle (ex_incident ''id-1'' (Some JNull))
                (Inr (JBool True)) ex_store)
     = [ex_incident ''id-2'' None, ex_incident ''id-1'' (Some (JBool True))]
   \<and> incidents (handleAnalyze_settle (ex_incident ''id-3'' None)
                  (Inr (JBool True)) ex_store)
     = incidents ex_store
   \<and> ''id-3'' \<notin> incident_id ` set (incidents ex_store)"
proof -
  have len: "length (incidents ex_store) = 2"
    by (simp add: ex_store_def)
  have absent: "''id-3'' \<notin> incident_id ` set (incidents ex_store)"
    by (simp add: ex_store_def ex_incident_def)
  have a: "incident_id (ex_incident ''id-3'' None) = ''id-3''"
    by (simp add: ex_incident_def)
  from handleAnalyze_overwrites
         [of "ex_incident ''id-1'' (Some JNull)" ex_store "JBool True" "JBool True"]
  have one: "incidents (handleAnalyze_settle (ex_incident ''id-1'' (Some JNull))
                (Inr (JBool True)) ex_store)
     = [ex_incident ''id-2'' None, ex_incident ''id-1'' (Some (JBool True))]"
    by (simp add: Let_def list_eq_iff_nth_eq len less_Suc_eq numeral_2_eq_2
        ex_store_def ex_incident_def)
  from handleAnalyze_overwrites
         [of "ex_incident ''id-3'' None" ex_store "JBool True" "JBool True"] absent
  have two: "incidents (handleAnalyze_settle (ex_incident ''id-3'' None)
                  (Inr (JBool True)) ex_store) = incidents ex_store"
    unfolding Let_def a by blast
  show ?thesis using one two absent by simp
qed

section \<open>Forty minutes of recording\<close>

lemma saveIncident_some:
  assumes "filter (\<lambda>c. timestamp c \<ge> now - minutes * 60 * 1000) (audioChunksRef s) = sel"
    and "sel \<noteq> []"
  shows "saveIncident now uuid minutes s =
           (let inc = \<lparr>incident_id = uuid, incident_timestamp = now,
                        durationSeconds = length sel,
                        blob = new_Blob (map data sel) ''audio/webm'', analysis = None\<rparr>
            in (Some inc, s\<lparr>incidents := inc # incidents s\<rparr>))"
proof -
  have "audioChunksRef s \<noteq> []" using assms by auto
  then show ?thesis
    using assms by (simp add: saveIncident_def relevantChunks_def Let_def)
qed

lemma feed_append: "feed (es @ fs) s = feed fs (feed es s)"
  by (induction es s rule: feed.induct) auto

lemma prune_loop_upt:
  "(\<And>k. timestamp (f k) < c \<longleftrightarrow> k < m) \<Longrightarrow>
   prune_loop c (map f [i..<j]) = map f [max i m..<j]"
proof (induction "j - i" arbitrary: i)
  case 0
  then show ?case by simp
next
  case (Suc n)
  then have ij: "i < j" and n: "n = j - Suc i" by auto
  have step: "[i..<j] = i # [Suc i..<j]" using ij by (simp add: upt_rec)
  show ?case
  proof (cases "i < m")
    case True
    then have "max (Suc i) m = max i m" by simp
    with Suc.hyps(1) [OF n Suc.prems] True Suc.prems show ?thesis
      by (simp add: step)
  next
    case False
    then have "max i m = i" by simp
    with False Suc.prems show ?thesis by (simp add: step)
  qed
qed

lemma filter_upt_ge: "filter (\<lambda>k. m \<le> k) [i..<j] = [max i m..<j]"
proof (induction j)
  case 0
  then show ?case by simp
next
  case (Suc j)
  show ?case
  proof (cases "i \<le> j")
    case True
    then show ?thesis using Suc by (auto simp: max_def)
  next
    case False
    then show ?thesis by simp
  qed
qed

lemma filter_map_upt_ge:
  "(\<And>k. P (f k) \<longleftrightarrow> m \<le> k) \<Longrightarrow> filter P (map f [i..<j]) = map f [max i m..<j]"
  by (simp add: filter_map comp_def filter_upt_ge)

text \<open>
  After one non-empty fragment per second, the recorder's buffer holds the fragments of
  the last 1800 seconds and the one exactly 30 minutes old: 1801 fragments once the
  recording is long enough.
\<close>

lemma feed_every_second:
  assumes "audioChunksRef s = []"
  shows "(\<forall>k. a \<le> k \<and> k < b \<longrightarrow> blob_size (d k) > 0) \<Longrightarrow>
         audioChunksRef (feed (every_second a b d) s) = map (chunk_at d) [max a (b - 1801)..<b]"
proof (induction b)
  case 0
  then show ?case using assms by (simp add: every_second_def)
next
  case (Suc b)
  show ?case
  proof (cases "a \<le> b")
    case True
    then have es: "every_second a (Suc b) d = every_second a b d @ [(1000 * int b, d b)]"
      by (simp add: every_second_def)
    have size_b: "blob_size (d b) > 0" using Suc.prems True by simp
    have ih: "audioChunksRef (feed (every_second a b d) s) = map (chunk_at d) [max a (b - 1801)..<b]"
      using Suc by simp
    have cut: "timestamp (chunk_at d k) < 1000 * int b - BUFFER_DURATION_MS \<longleftrightarrow> k < b - 1800" for k
      by (auto simp: chunk_at_def BUFFER_DURATION_MS_def)
    have "audioChunksRef (feed (every_second a (Suc b) d) s)
          = prune (1000 * int b) (map (chunk_at d) [max a (b - 1801)..<b] @ [chunk_at d b])"
      using size_b ih
      by (simp add: es feed_append ondataavailable_def chunk_at_def [of d b, symmetric])
    also have "map (chunk_at d) [max a (b - 1801)..<b] @ [chunk_at d b]
               = map (chunk_at d) [max a (b - 1801)..<Suc b]"
      using True by simp
    also have "prune (1000 * int b) \<dots> = map (chunk_at d) [max (max a (b - 1801)) (b - 1800)..<Suc b]"
      unfolding prune_def using cut by (rule prune_loop_upt)
    also have "max (max a (b - 1801)) (b - 1800) = max a (Suc b - 1801)"
      by auto
    finally show ?thesis .
  next
    case False
    then show ?thesis using assms by (simp add: every_second_def)
  qed
qed

lemma tick_every_second:
  assumes "audioChunksRef s = map (chunk_at d) [i..<j]"
    and "\<And>k. (now - 1000 * int k < BUFFER_DURATION_MS) \<longleftrightarrow> m \<le> k"
  shows "audioChunksRef (bufferSizeTick now s) = map (chunk_at d) [max i m..<j]"
    and "bufferSizeSecs (bufferSizeTick now s) = j - max i m"
proof -
  have "(now - timestamp (chunk_at d k) < BUFFER_DURATION_MS) \<longleftrightarrow> m \<le> k" for k
    using assms(2) by (simp add: chunk_at_def)
  then have "validChunks now (audioChunksRef s) = map (chunk_at d) [max i m..<j]"
    unfolding validChunks_def assms(1) by (rule filter_map_upt_ge)
  then show "audioChunksRef (bufferSizeTick now s) = map (chunk_at d) [max i m..<j]"
    and "bufferSizeSecs (bufferSizeTick now s) = j - max i m"
    by (simp_all add: bufferSizeTick_chunks bufferSizeTick_size)
qed

lemma save_every_second:
  assumes "audioChunksRef s = map (chunk_at d) [i..<j]"
    and "\<And>k. (now - 5 * 60 * 1000 \<le> 1000 * int k) \<longleftrightarrow> m \<le> k" and "i \<le> m" "m < j"
  shows "\<exists>inc. saveIncident now uuid 5 s = (Some inc, s\<lparr>incidents := inc # incidents s\<rparr>)
           \<and> blob_bytes (blob inc) = concat (map (\<lambda>k. blob_bytes (d k)) [m..<j])
           \<and> durationSeconds inc = j - m"
proof -
  have "(now - 5 * 60 * 1000 \<le> timestamp (chunk_at d k)) \<longleftrightarrow> m \<le> k" for k
    using assms(2) by (simp add: chunk_at_def)
  then have "filter (\<lambda>c. now - 5 * 60 * 1000 \<le> timestamp c) (audioChunksRef s)
             = map (chunk_at d) [max i m..<j]"
    unfolding assms(1) by (rule filter_map_upt_ge)
  then have sel: "filter (\<lambda>c. now - 5 * 60 * 1000 \<le> timestamp c) (audioChunksRef s)
             = map (chunk_at d) [m..<j]"
    using assms(3) by (simp add: max_def)
  have ne: "map (chunk_at d) [m..<j] \<noteq> []"
    using assms(4) by simp
  show ?thesis
    using saveIncident_some [OF sel ne, of uuid]
    by (simp add: Let_def new_Blob_def comp_def chunk_at_def)
qed

lemma last_fragments:
  "m \<le> j \<Longrightarrow> map (\<lambda>(t, b). blob_bytes b) (drop (m - i) (every_second i j d))
     = map (\<lambda>k. blob_bytes (d k)) [i + (m - i)..<j]"
  by (simp add: every_second_def drop_map comp_def)

text \<open>
  C7 (amended). One non-empty fragment per second for 40 minutes: 2400 fragments, the
  \<open>k\<close>-th stamped \<open>1000 * k\<close> ms, the last at 2400000 ms. At clock readings strictly after
  the last fragment's timestamp and less than a second after it, the buffer-size timer
  reports 1800 seconds, and a 5-minute save creates an incident whose audio is the
  concatenation, in order, of the payloads of the last 300 fragments.
\<close>

theorem forty_minutes_scenario:
  assumes "\<forall>k. 1 \<le> k \<and> k < 2401 \<longrightarrow> blob_size (d k) > 0"
    and "audioChunksRef s0 = []"
    and "2400000 < now1" "now1 < 2401000"
    and "2400000 < now2" "now2 < 2401000"
  shows "(let frags = every_second 1 2401 d;
              s1 = feed frags s0;
              s2 = bufferSizeTick now1 s1
          in length frags = 2400
           \<and> bufferSizeSecs s2 = 1800
           \<and> (\<exists>inc. saveIncident now2 uuid 5 s2 = (Some inc, s2\<lparr>incidents := inc # incidents s2\<rparr>)
                  \<and> blob_bytes (blob inc)
                      = concat (map (\<lambda>(t, b). blob_bytes b) (drop (length frags - 300) frags))
                  \<and> durationSeconds inc = 300))"
proof -
  define s1 where "s1 = feed (every_second 1 2401 d) s0"
  define s2 where "s2 = bufferSizeTick now1 s1"
  have b1: "audioChunksRef s1 = map (chunk_at d) [600..<2401]"
    unfolding s1_def using feed_every_second [OF assms(2), of 1 2401 d] assms(1) by simp
  have t: "(now1 - 1000 * int k < BUFFER_DURATION_MS) \<longleftrightarrow> 601 \<le> k" for k
    using assms(3,4) by (auto simp: BUFFER_DURATION_MS_def)
  have b2: "audioChunksRef s2 = map (chunk_at d) [601..<2401]"
    and sz: "bufferSizeSecs s2 = 1800"
    unfolding s2_def using tick_every_second [OF b1 t] by simp_all
  have w: "(now2 - 5 * 60 * 1000 \<le> 1000 * int k) \<longleftrightarrow> 2101 \<le> k" for k
    using assms(5,6) by auto
  have len: "length (every_second 1 2401 d) = 2400"
    by (simp add: every_second_def)
  have lst: "map (\<lambda>(t, b). blob_bytes b) (drop 2100 (every_second 1 2401 d))
             = map (\<lambda>k. blob_bytes (d k)) [2101..<2401]"
    using last_fragments [of 2101 2401 1 d] by simp
  have sv: "\<exists>inc. saveIncident now2 uuid 5 s2 = (Some inc, s2\<lparr>incidents := inc # incidents s2\<rparr>)
             \<and> blob_bytes (blob inc) = concat (map (\<lambda>k. blob_bytes (d k)) [2101..<2401])
             \<and> durationSeconds inc = 300"
    using save_every_second [OF b2 w, of uuid] by simp
  show ?thesis
    unfolding Let_def s1_def [symmetric] s2_def [symmetric] len
    using sz sv lst by simp
qed

theorem forty_minutes_scenario_witness:
  "bufferSizeSecs (bufferSizeTick 2400200 (feed (every_second 1 2401 ex_payload) (ex_app []))) = 1800
   \<and> (\<exists>inc. fst (saveIncident 2400500 ''id-1'' 5
                 (bufferSizeTick 2400200 (feed (every_second 1 2401 ex_payload) (ex_app [])))) = Some inc
          \<and> durationSeconds inc = 300)"
proof -
  have p: "\<forall>k. 1 \<le> k \<and> k < 2401 \<longrightarrow> blob_size (ex_payload k) > 0"
    by (simp add: ex_payload_def blob_size_def)
  have e: "audioChunksRef (ex_app []) = []"
    by (simp add: ex_app_def)
  show ?thesis
    using forty_minutes_scenario [OF p e, of 2400200 2400500 "''id-1''"]
    unfolding Let_def by auto
qed

lemma ex_payload_size: "\<forall>k. a \<le> k \<and> k < b \<longrightarrow> blob_size (ex_payload k) > 0"
  by (simp add: ex_payload_def blob_size_def)

text \<open>
  C7 as stated fails when the save happens at a whole second. With the fragments stamped
  1 s, ..., 2400 s and the save at 2400 s, the window \<open>timestamp \<ge> now - 300000\<close> is closed
  at both ends and holds 301 fragments, the first of them exactly 5 minutes old.
\<close>

theorem forty_minutes_on_the_second:
  "\<exists>inc. fst (saveIncident 2400000 ''id-1'' 5
              (feed (every_second 1 2401 ex_payload) (ex_app []))) = Some inc
       \<and> durationSeconds inc = 301
       \<and> length (blob_bytes (blob inc)) = 301"
proof -
  have e: "audioChunksRef (ex_app []) = []"
    by (simp add: ex_app_def)
  define s1 where "s1 = feed (every_second 1 2401 ex_payload) (ex_app [])"
  have b1: "audioChunksRef s1 = map (chunk_at ex_payload) [600..<2401]"
    unfolding s1_def using feed_every_second [OF e ex_payload_size, of 1 2401] by simp
  have w: "(2400000 - 5 * 60 * 1000 \<le> 1000 * int k) \<longleftrightarrow> 2100 \<le> k" for k
    by auto
  have g: "length (concat (map (\<lambda>k. blob_bytes (ex_payload k)) ks)) = length ks" for ks
    by (induction ks) (simp_all add: ex_payload_def)
  have n: "length (concat (map (\<lambda>k. blob_bytes (ex_payload k)) [2100..<2401])) = 301"
    unfolding g length_upt by simp
  obtain inc where
    i: "saveIncident 2400000 ''id-1'' 5 s1 = (Some inc, s1\<lparr>incidents := inc # incidents s1\<rparr>)"
       "blob_bytes (blob inc) = concat (map (\<lambda>k. blob_bytes (ex_payload k)) [2100..<2401])"
       "durationSeconds inc = 2401 - 2100"
    using save_every_second [OF b1 w, of "''id-1''"] by auto
  have "fst (saveIncident 2400000 ''id-1'' 5 s1) = Some inc \<and> durationSeconds inc = 301
        \<and> length (blob_bytes (blob inc)) = 301"
    using i(1,3) n unfolding i(2) by simp
  then show ?thesis unfolding s1_def by blast
qed

text \<open>
  The two pruning paths disagree on a fragment exactly 30 minutes old: the recorder's
  loop keeps it, the timer's filter drops it. With the fragments stamped 0 s, ..., 2399 s
  the recorder's buffer holds 1801 fragments after the last one, and the timer at 2400 s
  reports 1799.
\<close>

lemma size_on_the_second:
  "length (audioChunksRef (feed (every_second 0 2400 ex_payload) (ex_app []))) = 1801
   \<and> bufferSizeSecs (bufferSizeTick 2400000 (feed (every_second 0 2400 ex_payload) (ex_app [])))
       = 1799"
proof -
  have e: "audioChunksRef (ex_app []) = []"
    by (simp add: ex_app_def)
  define r1 where "r1 = feed (every_second 0 2400 ex_payload) (ex_app [])"
  have c1: "audioChunksRef r1 = map (chunk_at ex_payload) [599..<2400]"
    unfolding r1_def using feed_every_second [OF e ex_payload_size, of 0 2400] by simp
  have t: "(2400000 - 1000 * int k < BUFFER_DURATION_MS) \<longleftrightarrow> 601 \<le> k" for k
    by (auto simp: BUFFER_DURATION_MS_def)
  have "bufferSizeSecs (bufferSizeTick 2400000 r1) = 1799"
    using tick_every_second(2) [OF c1 t] by simp
  then show ?thesis
    using c1 unfolding r1_def by simp
qed

section \<open>The Base64 conversion pair\<close>

lemma first_octet: "(x::nat) div 4 * 4 + (x mod 4 * 16 + y div 16) div 16 = x" if "y < 256"
proof -
  have "y div 16 < 16" using that by simp
  then have "(x mod 4 * 16 + y div 16) div 16 = x mod 4" by simp
  then show ?thesis by simp
qed

lemma second_octet: "((x::nat) mod 4 * 16 + y div 16) mod 16 * 16 + (y mod 16 * 4 + z div 64) div 4 = y"
  if "y < 256" "z < 256"
proof -
  have a: "y div 16 < 16" using that by simp
  have b: "z div 64 < 4" using that by simp
  have "(x mod 4 * 16 + y div 16) mod 16 = y div 16" using a by simp
  moreover have "(y mod 16 * 4 + z div 64) div 4 = y mod 16" using b by simp
  ultimately show ?thesis by simp
qed

lemma third_octet: "((y::nat) mod 16 * 4 + z div 64) mod 4 * 64 + z mod 64 = z" if "z < 256"
proof -
  have b: "z div 64 < 4" using that by simp
  have "(y mod 16 * 4 + z div 64) mod 4 = z div 64" using b by simp
  then show ?thesis by simp
qed


lemma index_of_nth: "distinct xs \<Longrightarrow> n < length xs \<Longrightarrow> index_of (xs ! n) xs = Some n"
proof (induction xs arbitrary: n)
  case Nil
  then show ?case by simp
next
  case (Cons x xs)
  then show ?case by (cases n) auto
qed

lemma b64chars_length: "length b64chars = 64"
  by (simp add: b64chars_def)

lemma b64chars_distinct: "distinct b64chars"
  by (simp add: b64chars_def)

lemma b64_dec_enc: "n < 64 \<Longrightarrow> b64_dec (b64_enc n) = Some n"
  by (simp add: b64_dec_def b64_enc_def index_of_nth b64chars_distinct b64chars_length)

lemma b64_enc_in: "n < 64 \<Longrightarrow> b64_enc n \<in> set b64chars"
  by (simp add: b64_enc_def b64chars_length)

lemma b64chars_plain: "c \<in> set b64chars \<Longrightarrow> c \<noteq> CHR ''='' \<and> \<not> ascii_whitespace c"
  by (auto simp: b64chars_def ascii_whitespace_def)

lemma six_bits:
  fixes x y z :: nat
  assumes "x < 256" "y < 256" "z < 256"
  shows "x div 4 < 64" "x mod 4 * 16 + y div 16 < 64" "y mod 16 * 4 + z div 64 < 64"
    "z mod 64 < 64" "x mod 4 * 16 < 64" "y mod 16 * 4 < 64"
proof -
  have "x mod 4 < 4" "y mod 16 < 16" "y div 16 < 16" "z div 64 < 4"
    using assms by simp_all
  then show "x mod 4 * 16 + y div 16 < 64" "y mod 16 * 4 + z div 64 < 64"
    "x mod 4 * 16 < 64" "y mod 16 * 4 < 64"
    by linarith+
  show "x div 4 < 64" using assms(1) by simp
  show "z mod 64 < 64" by simp
qed

lemma sextets_bound: "v \<in> set (sextets s) \<Longrightarrow> v < 64"
proof (induction s arbitrary: v rule: sextets.induct)
  case 1
  then show ?case by simp
next
  case (2 a)
  then show ?case
    using six_bits [of "of_char a" 0 0] by (auto simp: Let_def)
next
  case (3 a b)
  then show ?case
    using six_bits [of "of_char a" "of_char b" 0] by (auto simp: Let_def)
next
  case (4 a b c rest)
  then show ?case
    using six_bits [of "of_char a" "of_char b" "of_char c"] by (auto simp: Let_def)
qed

lemma octets_sextets: "octets (sextets s) = s"
proof (induction s rule: sextets.induct)
  case 1
  then show ?case by simp
next
  case (2 a)
  show ?case using first_octet [of 0 "of_char a"] by (simp add: Let_def)
next
  case (3 a b)
  show ?case
    using first_octet [of "of_char b" "of_char a"] second_octet [of "of_char b" 0 "of_char a"]
    by (simp add: Let_def)
next
  case (4 a b c rest)
  then show ?case
    using first_octet [of "of_char b" "of_char a"] second_octet [of "of_char b" "of_char c" "of_char a"]
      third_octet [of "of_char c" "of_char b"]
    by (simp add: Let_def)
qed

lemma length_sextets: "length (sextets s) = (4 * length s + 2) div 3"
  by (induction s rule: sextets.induct) (simp_all add: Let_def)


lemma those_map_Some: "(\<And>x. x \<in> set xs \<Longrightarrow> f (g x) = Some x) \<Longrightarrow> those (map f (map g xs)) = Some xs"
  by (induction xs) auto

lemma body_plain:
  "c \<in> set (map b64_enc (sextets s)) \<Longrightarrow> c \<noteq> CHR ''='' \<and> \<not> ascii_whitespace c"
  using sextets_bound b64_enc_in b64chars_plain by fastforce

lemma filter_btoa: "filter (\<lambda>c. \<not> ascii_whitespace c) (btoa s) = btoa s"
proof -
  have "\<not> ascii_whitespace CHR ''=''" by (simp add: ascii_whitespace_def)
  then show ?thesis
    unfolding btoa_def using body_plain [of _ s] by (auto simp: filter_id_conv)
qed

lemma strip_padding_btoa: "strip_padding (btoa s) = map b64_enc (sextets s)"
proof -
  define body where "body = map b64_enc (sextets s)"
  have len: "length body = (4 * length s + 2) div 3"
    by (simp add: body_def length_sextets)
  have plain: "c \<in> set body \<Longrightarrow> c \<noteq> CHR ''=''" for c
    unfolding body_def using body_plain by blast
  consider (z) "length s mod 3 = 0" | (o) "length s mod 3 = 1" | (t) "length s mod 3 = 2"
    by linarith
  then have "strip_padding (body @ replicate ((3 - length s mod 3) mod 3) CHR ''='') = body"
  proof cases
    case z
    then have l4: "length body mod 4 = 0" using len by presburger
    show ?thesis
    proof (cases body rule: rev_cases)
      case Nil
      then show ?thesis using z by (simp add: strip_padding_def)
    next
      case (snoc r e1)
      then have "e1 \<noteq> CHR ''=''" using plain by simp
      then show ?thesis using z l4 unfolding snoc
        by (simp add: strip_padding_def split: list.splits)
    qed
  next
    case o
    then have l4: "length body mod 4 = 2" using len by presburger
    then have "body \<noteq> []" by auto
    then obtain r e2 where rb: "body = r @ [e2]" by (cases body rule: rev_cases) auto
    then have ne: "e2 \<noteq> CHR ''=''" using plain by simp
    have pad: "replicate ((3 - length s mod 3) mod 3) CHR ''='' = ''==''"
      using o by (simp add: numeral_2_eq_2)
    have "length (body @ ''=='') mod 4 = 0" using l4 by (simp add: mod_Suc)
    then show ?thesis unfolding pad using ne unfolding rb
      by (simp add: strip_padding_def)
  next
    case t
    then have l4: "length body mod 4 = 3" using len by presburger
    then have "body \<noteq> []" by auto
    then obtain r e2 where rb: "body = r @ [e2]" by (cases body rule: rev_cases) auto
    then have ne: "e2 \<noteq> CHR ''=''" using plain by simp
    have pad: "replicate ((3 - length s mod 3) mod 3) CHR ''='' = ''=''"
      using t by simp
    have "length (body @ ''='') mod 4 = 0" using l4 by (simp add: mod_Suc)
    then show ?thesis unfolding pad using ne unfolding rb
      by (simp add: strip_padding_def)
  qed
  then show ?thesis by (simp add: btoa_def body_def)
qed

lemma atob_btoa: "atob (btoa s) = Inr s"
proof -
  have l: "length (map b64_enc (sextets s)) mod 4 \<noteq> 1"
    unfolding length_map length_sextets by presburger
  have d: "those (map b64_dec (map b64_enc (sextets s))) = Some (sextets s)"
    by (rule those_map_Some) (simp add: b64_dec_enc sextets_bound)
  have "atob (btoa s) = (case those (map b64_dec (map b64_enc (sextets s))) of
                 None \<Rightarrow> Inl InvalidCharacterError
               | Some vs \<Rightarrow> Inr (octets vs))"
    using l unfolding atob_def filter_btoa strip_padding_btoa Let_def by simp
  then show ?thesis
    unfolding d by (simp add: octets_sextets)
qed

text \<open>
  C9. Decoding the encoding of a byte array gives the byte array back:
  \<^verbatim>\<open>base64ToUint8Array(uint8ArrayToBase64(b))\<close> returns \<open>b\<close> (and does not throw).
\<close>

theorem base64_round_trip: "base64ToUint8Array (uint8ArrayToBase64 b) = Inr b"
proof -
  have "(of_nat (charCodeAt (fromCharCode (unat x))) :: byte) = x" for x :: byte
  proof -
    have "unat x < 256" using unsigned_less [of x, where ?'a = nat] by simp
    then show ?thesis by (simp add: charCodeAt_def fromCharCode_def)
  qed
  then have "map (\<lambda>c. (of_nat (charCodeAt c) :: byte)) (map (\<lambda>b. fromCharCode (unat b)) b) = b"
    by (induction b) simp_all
  then show ?thesis
    by (simp add: base64ToUint8Array_def uint8ArrayToBase64_def atob_btoa)
qed

section \<open>Float samples to 16-bit PCM\<close>

lemma js_trunc_bounds:
  fixes a b :: int
  assumes "of_int a \<le> r" "r \<le> of_int b" "a \<le> 0" "0 \<le> b"
  shows "a \<le> js_trunc r" "js_trunc r \<le> b"
proof -
  show "a \<le> js_trunc r"
  proof (cases "r \<ge> 0")
    case True
    then show ?thesis using assms by (simp add: js_trunc_def le_floor_iff)
  next
    case False
    have "a \<le> \<lceil>r\<rceil>" using assms(1) by (simp add: le_ceiling_iff)
    then show ?thesis using False by (simp add: js_trunc_def)
  qed
  show "js_trunc r \<le> b"
  proof (cases "r \<ge> 0")
    case True
    have "\<lfloor>r\<rfloor> \<le> b" using assms(2) by (simp add: floor_le_iff)
    then show ?thesis using True by (simp add: js_trunc_def)
  next
    case False
    then show ?thesis using assms by (simp add: js_trunc_def ceiling_le_iff)
  qed
qed

lemma ToInt16_exact:
  assumes "-32768 \<le> q" "q \<le> 32767"
  shows "sint (ToInt16 (Fin q)) = js_trunc q"
proof -
  have "(-32768 :: int) \<le> js_trunc q" "js_trunc q \<le> (32767 :: int)"
    using js_trunc_bounds [of "-32768" q 32767] assms by simp_all
  then show ?thesis
    by (simp add: sint_sbintrunc' signed_take_bit_int_eq_self)
qed

lemma pcm_sample_cases:
  "pcm_sample NaN = NaN" "pcm_sample PosInf = Fin 32767" "pcm_sample NegInf = Fin (-32768)"
  "pcm_sample (Fin r) =
     Fin (if r < 0 then max (-1) r * 32768 else min 1 r * 32767)"
  by (auto simp: pcm_sample_def Let_def max_def min_def)

lemma pcm_sample_range: "pcm_sample x = Fin q \<Longrightarrow> -32768 \<le> q \<and> q \<le> 32767"
  by (cases x) (auto simp: pcm_sample_cases max_def min_def split: if_splits)

lemma pcm_sample_low: "js_le x (Fin (-1)) \<Longrightarrow> pcm_sample x = Fin (-32768)"
  by (cases x) (auto simp: pcm_sample_cases max_def)

lemma pcm_sample_high: "js_le (Fin 1) x \<Longrightarrow> pcm_sample x = Fin 32767"
  by (cases x) (auto simp: pcm_sample_cases min_def)

lemma js_trunc_numeral [simp]:
  "js_trunc (numeral n) = numeral n" "js_trunc (- numeral n) = - numeral n"
  by (simp_all add: js_trunc_def)

text \<open>
  C10. \<^verbatim>\<open>float32ToInt16PCM\<close> returns an array of the same length. Every stored sample,
  read as a signed 16-bit integer, lies in \<open>[-32768, 32767]\<close>; the value computed for a
  sample before it is stored already lies in that range, so storing it only truncates
  the fraction and never wraps. A sample \<open>\<le> -1\<close> (including \<open>-\<infinity>\<close>) is stored as
  \<open>-32768\<close> and a sample \<open>\<ge> 1\<close> (including \<open>+\<infinity>\<close>) as \<open>32767\<close>.
\<close>

theorem float32ToInt16PCM_clamped:
  "length (float32ToInt16PCM xs) = length xs
   \<and> (\<forall>i < length xs.
         - 32768 \<le> sint (float32ToInt16PCM xs ! i)
       \<and> sint (float32ToInt16PCM xs ! i) \<le> 32767
       \<and> (\<forall>q. pcm_sample (xs ! i) = Fin q \<longrightarrow>
              - 32768 \<le> q \<and> q \<le> 32767 \<and> sint (float32ToInt16PCM xs ! i) = js_trunc q)
       \<and> (js_le (xs ! i) (Fin (- 1)) \<longrightarrow> sint (float32ToInt16PCM xs ! i) = - 32768)
       \<and> (js_le (Fin 1) (xs ! i) \<longrightarrow> sint (float32ToInt16PCM xs ! i) = 32767))"
proof -
  have rng: "- 32768 \<le> sint w \<and> sint w \<le> 32767" for w :: "16 word"
    using sint_ge [of w] sint_lt [of w] by simp
  have ex: "pcm_sample x = Fin q \<Longrightarrow>
              - 32768 \<le> q \<and> q \<le> 32767 \<and> sint (ToInt16 (pcm_sample x)) = js_trunc q" for x q
    using pcm_sample_range [of x q] ToInt16_exact [of q] by simp
  have lo: "js_le x (Fin (- 1)) \<Longrightarrow> sint (ToInt16 (pcm_sample x)) = - 32768" for x
    using ToInt16_exact [of "-32768"] by (simp add: pcm_sample_low)
  have hi: "js_le (Fin 1) x \<Longrightarrow> sint (ToInt16 (pcm_sample x)) = 32767" for x
    using ToInt16_exact [of 32767] by (simp add: pcm_sample_high)
  show ?thesis
    using rng ex lo hi by (simp add: float32ToInt16PCM_def)
qed


theorem float32ToInt16PCM_clamped_witness:
  "map sint (float32ToInt16PCM ex_samples) = [16383, - 32768, 32767, 0, - 32768]
   \<and> js_le (ex_samples ! 1) (Fin (- 1)) \<and> js_le (Fin 1) (ex_samples ! 2)
   \<and> pcm_sample (ex_samples ! 0) = Fin (32767 / 2)"
proof -
  have p: "pcm_sample (ex_samples ! 0) = Fin (32767 / 2)"
    by (simp add: ex_samples_def pcm_sample_cases)
  have t: "js_trunc (32767 / 2) = 16383"
    by (simp add: js_trunc_def)
  have l: "js_le (ex_samples ! 1) (Fin (- 1))" "js_le (ex_samples ! 4) (Fin (- 1))"
    "js_le (Fin 1) (ex_samples ! 2)"
    by (simp_all add: ex_samples_def)
  have n: "float32ToInt16PCM ex_samples ! 3 = 0"
    by (simp add: ex_samples_def float32ToInt16PCM_def pcm_sample_cases)
  have len: "length ex_samples = 5" by (simp add: ex_samples_def)
  have idx: "0 < length ex_samples" "1 < length ex_samples" "2 < length ex_samples"
    "4 < length ex_samples" by (simp_all add: len)
  note c = float32ToInt16PCM_clamped [of ex_samples]
  have "\<forall>q. pcm_sample (ex_samples ! 0) = Fin q \<longrightarrow>
          sint (float32ToInt16PCM ex_samples ! 0) = js_trunc q"
    using c idx(1) by blast
  then have "sint (float32ToInt16PCM ex_samples ! 0) = js_trunc (32767 / 2)"
    using p by blast
  then have "sint (float32ToInt16PCM ex_samples ! 0) = 16383"
    using t by simp
  moreover have "sint (float32ToInt16PCM ex_samples ! 1) = - 32768"
    using c idx(2) l(1) by blast
  moreover have "sint (float32ToInt16PCM ex_samples ! 2) = 32767"
    using c idx(3) l(3) by blast
  moreover have "sint (float32ToInt16PCM ex_samples ! 4) = - 32768"
    using c idx(4) l(2) by blast
  moreover have "length (float32ToInt16PCM ex_samples) = 5"
    using c len by simp
  ultimately show ?thesis
    using n p l by (simp add: list_eq_iff_nth_eq less_Suc_eq numeral_eq_Suc)
qed

section \<open>The live transcript\<close>

lemma length_marks: "length INTERRUPTED_MARK = 17" "length TURN_MARK = 4"
  by (simp_all add: INTERRUPTED_MARK_def TURN_MARK_def)

lemma onmessage_interruption:
  "isMounted s \<Longrightarrow> onmessage t interruption s =
     Inr (s\<lparr>stopped := stopped s @ map node_id (audioSourcesRef s), audioSourcesRef := [],
       nextStartTimeRef := 0, transcription := transcription s @ INTERRUPTED_MARK\<rparr>)"
  by (simp add: onmessage_def interruption_def)

lemma onmessage_turn_completion:
  "isMounted s \<Longrightarrow> onmessage t turn_completion s =
     Inr (s\<lparr>transcription := transcription s @ TURN_MARK\<rparr>)"
  by (simp add: onmessage_def turn_completion_def)

lemma run_interruptions:
  "isMounted s \<Longrightarrow>
   length (transcription (run (replicate n (Message t interruption)) s))
     = length (transcription s) + 17 * n"
  by (induction n arbitrary: s) (simp_all add: onmessage_interruption length_marks)

lemma run_turn_completions:
  "isMounted s \<Longrightarrow>
   length (transcription (run (replicate n (Message t turn_completion)) s))
     = length (transcription s) + 4 * n"
  by (induction n arbitrary: s) (simp_all add: onmessage_turn_completion length_marks)

lemma appendTranscription_bounded: "length (appendTranscription prev txt) \<le> 2003"
proof -
  have "length (slice_last 2000 s) \<le> 2000" for s
    by (simp add: slice_last_def)
  then show ?thesis
    by (simp add: appendTranscription_def Let_def del: length_append)
qed

lemma appendTranscription_trailing:
  "appendTranscription prev txt =
     (if length (prev @ txt) \<le> 2000 then prev @ txt
      else ''...'' @ drop (length (prev @ txt) - 2000) (prev @ txt))"
  by (simp add: appendTranscription_def slice_last_def Let_def)

lemma transcript_unbounded:
  "\<exists>evs. length (transcription (run evs opened)) > bound"
proof -
  have "length (transcription (run (replicate (Suc bound) (Message 0 interruption)) opened))
        = 17 * Suc bound"
    using run_interruptions [of opened "Suc bound" 0] by (simp add: opened_def)
  then have "length (transcription (run (replicate (Suc bound) (Message 0 interruption)) opened)) > bound"
    by simp
  then show ?thesis by blast
qed

text \<open>
  C8. The transcript is cut back to its last 2000 code units (behind a \<^verbatim>\<open>...\<close> prefix)
  only when a transcript fragment is appended. The interruption marker and the
  turn-completion separator are appended without the cut, so a sequence of marker events
  grows the transcript without bound: 200 interruptions from an empty transcript give
  3400 code units, 1000 turn completions give 4000.
\<close>

theorem transcript_grows_with_markers:
  "length (transcription (run (replicate 200 (Message 0 interruption)) opened)) = 3400
   \<and> length (transcription (run (replicate 1000 (Message 0 turn_completion)) opened)) = 4000"
  using run_interruptions [of opened 200 0] run_turn_completions [of opened 1000 0]
  by (simp add: opened_def)

section \<open>Scheduling synthesized audio\<close>

lemma transcript_part_fields [simp]:
  "audioSourcesRef (transcript_part msg s) = audioSourcesRef s"
  "nextStartTimeRef (transcript_part msg s) = nextStartTimeRef s"
  "isMounted (transcript_part msg s) = isMounted s"
  "outputContextRef (transcript_part msg s) = outputContextRef s"
  "stopped (transcript_part msg s) = stopped s"
  "created (transcript_part msg s) = created s"
  by (simp_all add: transcript_part_def Let_def split: option.splits)

lemma onmessage_audio:
  assumes "isMounted s" "outputContextRef s" "\<not> interrupted msg"
    and "truthy (inlineData msg) = Some a" "base64ToUint8Array a = Inr pcm"
    and "pcmToAudioBuffer pcm 24000 = Inr clip"
  shows "onmessage now msg s = Inr (transcript_part msg (scheduleAudio now clip s))"
  using assms by (simp add: onmessage_def transcript_part_def Let_def)

lemma onmessage_no_audio:
  assumes "isMounted s" "\<not> interrupted msg" "truthy (inlineData msg) = None"
  shows "onmessage now msg s = Inr (transcript_part msg s)"
  using assms by (simp add: onmessage_def transcript_part_def Let_def)

lemma onmessage_interrupted:
  assumes "isMounted s" "interrupted msg"
  shows "onmessage t msg s =
     Inr (s\<lparr>stopped := stopped s @ map node_id (audioSourcesRef s), audioSourcesRef := [],
       nextStartTimeRef := 0, transcription := transcription s @ INTERRUPTED_MARK\<rparr>)"
  using assms by (simp add: onmessage_def)

lemma scheduleAudio_fields:
  "audioSourcesRef (scheduleAudio now clip s)
     = audioSourcesRef s @ [\<lparr>node_id = created s, buffer = clip,
                               startTime = max now (nextStartTimeRef s)\<rparr>]"
  "nextStartTimeRef (scheduleAudio now clip s) = max now (nextStartTimeRef s) + duration clip"
  "isMounted (scheduleAudio now clip s) = isMounted s"
  "outputContextRef (scheduleAudio now clip s) = outputContextRef s"
  "created (scheduleAudio now clip s) = Suc (created s)"
  "stopped (scheduleAudio now clip s) = stopped s"
  by (simp_all add: scheduleAudio_def Let_def max_def)

lemma duration_nonneg: "0 \<le> duration b"
  by (simp add: duration_def)

lemma pcmToAudioBuffer_duration:
  "pcmToAudioBuffer pcm 24000 = Inr clip \<Longrightarrow> 0 < duration clip"
  by (auto simp: pcmToAudioBuffer_def Let_def duration_def split: if_splits)

lemma behind_cursor_scheduleAudio:
  "behind_cursor s \<Longrightarrow> behind_cursor (scheduleAudio now clip s)"
  using duration_nonneg [of clip]
  by (auto simp: behind_cursor_def scheduleAudio_fields list_all_iff endTime_def)

lemma behind_cursor_transcript_part:
  "behind_cursor s \<Longrightarrow> behind_cursor (transcript_part msg s)"
  by (simp add: behind_cursor_def)

lemma onmessage_no_context:
  assumes "isMounted s" "\<not> interrupted msg" "\<not> outputContextRef s"
  shows "onmessage now msg s = Inr (transcript_part msg s)"
  using assms by (simp add: onmessage_def transcript_part_def Let_def split: option.splits)

lemma onmessage_undecodable:
  assumes "isMounted s" "outputContextRef s" "\<not> interrupted msg"
    and "truthy (inlineData msg) = Some a"
    and "base64ToUint8Array a = Inl e \<or>
         (\<exists>pcm. base64ToUint8Array a = Inr pcm \<and> pcmToAudioBuffer pcm 24000 = Inl e)"
  shows "onmessage now msg s = Inl e"
  using assms by (auto simp: onmessage_def)

lemma behind_cursor_onmessage:
  assumes "behind_cursor s" "onmessage t msg s = Inr s'"
  shows "behind_cursor s'"
proof (cases "isMounted s")
  case False
  then show ?thesis using assms by (simp add: onmessage_def)
next
  case mounted: True
  show ?thesis
  proof (cases "interrupted msg")
    case True
    then show ?thesis
      using assms(2) mounted by (auto simp: onmessage_interrupted behind_cursor_def)
  next
    case ni: False
    show ?thesis
    proof (cases "truthy (inlineData msg)")
      case None
      then show ?thesis
        using assms mounted ni
        by (auto simp: onmessage_no_audio intro: behind_cursor_transcript_part)
    next
      case (Some a)
      show ?thesis
      proof (cases "outputContextRef s")
        case False
        then show ?thesis
          using assms mounted ni
          by (auto simp: onmessage_no_context intro: behind_cursor_transcript_part)
      next
        case ctx: True
        show ?thesis
        proof (cases "base64ToUint8Array a")
          case (Inl e)
          then show ?thesis
            using onmessage_undecodable [OF mounted ctx ni Some, of e t] assms(2) by simp
        next
          case (Inr pcm)
          show ?thesis
          proof (cases "pcmToAudioBuffer pcm 24000")
            case (Inl e)
            then show ?thesis
              using onmessage_undecodable [OF mounted ctx ni Some, of e t] Inr assms(2) by simp
          next
            case clip: (Inr clip)
            show ?thesis
              using onmessage_audio [OF mounted ctx ni Some Inr clip, of t] assms
              by (auto intro: behind_cursor_transcript_part behind_cursor_scheduleAudio)
          qed
        qed
      qed
    qed
  qed
qed

lemma behind_cursor_step: "behind_cursor s \<Longrightarrow> behind_cursor (step e s)"
proof (cases e)
  case (Message t msg)
  assume "behind_cursor s"
  then show ?thesis
    using Message behind_cursor_onmessage [of s t msg]
    by (cases "onmessage t msg s") auto
next
  case (Ended i)
  assume "behind_cursor s"
  then show ?thesis
    using Ended by (auto simp: behind_cursor_def onended_def list_all_iff)
qed

lemma behind_cursor_run: "behind_cursor s \<Longrightarrow> behind_cursor (run evs s)"
  by (induction evs arbitrary: s) (auto intro: behind_cursor_step)

lemma behind_cursor_opened: "behind_cursor opened"
  by (simp add: behind_cursor_def opened_def)

lemma onmessage_keeps:
  "onmessage t msg s = Inr s' \<Longrightarrow>
     isMounted s' = isMounted s \<and> outputContextRef s' = outputContextRef s"
  unfolding onmessage_def
  by (auto simp: Let_def scheduleAudio_def split: if_splits option.splits sum.splits)

lemma step_keeps:
  "isMounted (step e s) = isMounted s \<and> outputContextRef (step e s) = outputContextRef s"
proof (cases e)
  case (Message t msg)
  then show ?thesis
    using onmessage_keeps [of t msg s] by (cases "onmessage t msg s") auto
next
  case (Ended i)
  then show ?thesis by (simp add: onended_def)
qed

lemma run_keeps:
  "isMounted (run evs s) = isMounted s \<and> outputContextRef (run evs s) = outputContextRef s"
  by (induction evs arbitrary: s) (simp_all add: step_keeps)

lemma connected: "isMounted (run evs opened)" "outputContextRef (run evs opened)"
  by (simp_all add: run_keeps opened_def)

text \<open>
  C4. In the connected session (any state reached from the opened session by server
  messages and ends of playback), an audio payload that decodes to a clip is started at
  the maximum of the current playback time and the cursor: not before the current time,
  and not before the end of any node still in the scheduled set. The cursor then becomes
  that start plus the clip's duration, so the next clip starts at the maximum of its own
  current time and the end of this clip: exactly at the end of this clip whenever it is
  handled before that end. Times are the real numbers the clock readings denote.
\<close>

theorem audio_scheduling:
  assumes "s = run evs opened"
    and "\<not> interrupted msg1" "truthy (inlineData msg1) = Some a1"
      "base64ToUint8Array a1 = Inr pcm1" "pcmToAudioBuffer pcm1 24000 = Inr clip1"
    and "\<not> interrupted msg2" "truthy (inlineData msg2) = Some a2"
      "base64ToUint8Array a2 = Inr pcm2" "pcmToAudioBuffer pcm2 24000 = Inr clip2"
  shows "\<exists>s1 s2 src1 src2.
           onmessage now1 msg1 s = Inr s1 \<and> onmessage now2 msg2 s1 = Inr s2
         \<and> audioSourcesRef s1 = audioSourcesRef s @ [src1]
         \<and> audioSourcesRef s2 = audioSourcesRef s @ [src1, src2]
         \<and> buffer src1 = clip1 \<and> buffer src2 = clip2
         \<and> startTime src1 = max now1 (nextStartTimeRef s)
         \<and> now1 \<le> startTime src1
         \<and> (\<forall>n \<in> set (audioSourcesRef s). endTime n \<le> startTime src1)
         \<and> nextStartTimeRef s1 = startTime src1 + duration clip1
         \<and> startTime src2 = max now2 (endTime src1)
         \<and> (now2 \<le> endTime src1 \<longrightarrow> startTime src2 = endTime src1)
         \<and> nextStartTimeRef s2 = startTime src2 + duration clip2"
proof -
  define s1 where "s1 = transcript_part msg1 (scheduleAudio now1 clip1 s)"
  define s2 where "s2 = transcript_part msg2 (scheduleAudio now2 clip2 s1)"
  define src1 where "src1 = \<lparr>node_id = created s, buffer = clip1,
                               startTime = max now1 (nextStartTimeRef s)\<rparr>"
  define src2 where "src2 = \<lparr>node_id = created s1, buffer = clip2,
                               startTime = max now2 (nextStartTimeRef s1)\<rparr>"
  have inv: "behind_cursor s"
    unfolding assms(1) by (rule behind_cursor_run [OF behind_cursor_opened])
  have live: "isMounted s" "outputContextRef s"
    unfolding assms(1) by (rule connected)+
  have m1: "onmessage now1 msg1 s = Inr s1"
    unfolding s1_def by (rule onmessage_audio [OF live assms(2-5)])
  have live1: "isMounted s1" "outputContextRef s1"
    using live by (simp_all add: s1_def scheduleAudio_fields)
  have m2: "onmessage now2 msg2 s1 = Inr s2"
    unfolding s2_def by (rule onmessage_audio [OF live1 assms(6-9)])
  have q1: "audioSourcesRef s1 = audioSourcesRef s @ [src1]"
    by (simp add: s1_def src1_def scheduleAudio_fields)
  have c1: "nextStartTimeRef s1 = startTime src1 + duration clip1"
    by (simp add: s1_def src1_def scheduleAudio_fields)
  have e1: "endTime src1 = nextStartTimeRef s1"
    by (simp add: c1 endTime_def src1_def)
  have q2: "audioSourcesRef s2 = audioSourcesRef s @ [src1, src2]"
    by (simp add: s2_def src2_def scheduleAudio_fields q1)
  have c2: "nextStartTimeRef s2 = startTime src2 + duration clip2"
    by (simp add: s2_def src2_def scheduleAudio_fields)
  have st2: "startTime src2 = max now2 (endTime src1)"
    by (simp add: src2_def e1)
  have before: "\<forall>n \<in> set (audioSourcesRef s). endTime n \<le> startTime src1"
    using inv by (auto simp: behind_cursor_def list_all_iff src1_def)
  show ?thesis
    using m1 m2 q1 q2 c1 c2 st2 before
    by (intro exI [of _ s1] exI [of _ s2] exI [of _ src1] exI [of _ src2])
       (simp add: src1_def src2_def)
qed

lemma ex_audio_decodes:
  "truthy (inlineData (audio_payload ex_audio)) = Some ex_audio"
  "\<not> interrupted (audio_payload ex_audio)"
  "base64ToUint8Array ex_audio = Inr [0, 0, 1, 0, 2, 0]"
  "pcmToAudioBuffer [0, 0, 1, 0, 2, 0] 24000 = Inr ex_clip"
  "duration ex_clip = 1 / 8000"
proof -
  show "base64ToUint8Array ex_audio = Inr [0, 0, 1, 0, 2, 0]"
    unfolding ex_audio_def by code_simp
qed (simp_all add: audio_payload_def ex_audio_def ex_clip_def pcmToAudioBuffer_def Let_def duration_def)

theorem audio_scheduling_witness:
  "\<exists>src1 src2.
     audioSourcesRef (run [Message 1 (audio_payload ex_audio), Message 1 (audio_payload ex_audio)]
                           opened) = [src1, src2]
   \<and> startTime src1 = 1 \<and> startTime src2 = 1 + 1 / 8000
   \<and> nextStartTimeRef (run [Message 1 (audio_payload ex_audio), Message 1 (audio_payload ex_audio)]
                             opened) = 1 + 2 / 8000"
proof -
  have o: "opened = run [] opened" by simp
  from audio_scheduling [OF o ex_audio_decodes(2,1,3,4) ex_audio_decodes(2,1,3,4), of 1 1]
  obtain s1 s2 src1 src2 where
    h: "onmessage 1 (audio_payload ex_audio) opened = Inr s1"
       "onmessage 1 (audio_payload ex_audio) s1 = Inr s2"
       "audioSourcesRef s2 = audioSourcesRef opened @ [src1, src2]"
       "startTime src1 = max 1 (nextStartTimeRef opened)"
       "startTime src2 = max 1 (endTime src1)"
       "buffer src1 = ex_clip" "buffer src2 = ex_clip"
       "nextStartTimeRef s2 = startTime src2 + duration ex_clip"
    by blast
  have r: "run [Message 1 (audio_payload ex_audio), Message 1 (audio_payload ex_audio)] opened = s2"
    using h(1,2) by simp
  have a: "startTime src1 = 1" using h(4) by (simp add: opened_def)
  have b: "endTime src1 = 1 + 1 / 8000" using a h(6) by (simp add: endTime_def ex_audio_decodes)
  have c: "startTime src2 = 1 + 1 / 8000" using h(5) b by simp
  have d: "nextStartTimeRef s2 = 1 + 2 / 8000" using h(8) c by (simp add: ex_audio_decodes)
  have e: "audioSourcesRef s2 = [src1, src2]" using h(3) by (simp add: opened_def)
  show ?thesis unfolding r using a c d e by blast
qed

lemma idle_step:
  assumes "schedules_nothing e" "audioSourcesRef s = []" "nextStartTimeRef s = 0"
  shows "audioSourcesRef (step e s) = [] \<and> nextStartTimeRef (step e s) = 0"
proof (cases e)
  case (Ended i)
  then show ?thesis using assms by (simp add: onended_def)
next
  case (Message t msg)
  then have "truthy (inlineData msg) = None" using assms(1) by simp
  then show ?thesis
    using assms(2,3) Message
    by (simp add: onmessage_def Let_def split: option.splits)
qed

lemma idle_run:
  "list_all schedules_nothing evs \<Longrightarrow> audioSourcesRef s = [] \<Longrightarrow> nextStartTimeRef s = 0 \<Longrightarrow>
   audioSourcesRef (run evs s) = [] \<and> nextStartTimeRef (run evs s) = 0"
  by (induction evs arbitrary: s) (simp_all add: idle_step)

text \<open>
  C5 (amended). After an interruption signal handled at clock reading \<open>t\<close> in the
  connected session, \<^verbatim>\<open>stop()\<close> has been called on every node that was scheduled, the
  scheduled set is empty, the cursor is 0 and the marker is appended to the transcript.
  The next clip scheduled afterwards, at a clock reading \<open>t' \<ge> t\<close> and with only events that
  schedule nothing in between, starts at \<open>t'\<close>, no earlier than the interruption.
\<close>

theorem interruption_clears_schedule:
  assumes "s = run evs opened"
    and "interrupted msg"
    and "0 \<le> t" "t \<le> t'"
    and "list_all schedules_nothing later"
    and "\<not> interrupted msg'" "truthy (inlineData msg') = Some a"
      "base64ToUint8Array a = Inr pcm" "pcmToAudioBuffer pcm 24000 = Inr clip"
  shows "\<exists>s1 s2 src.
           onmessage t msg s = Inr s1
         \<and> set (map node_id (audioSourcesRef s)) \<subseteq> set (stopped s1)
         \<and> audioSourcesRef s1 = []
         \<and> nextStartTimeRef s1 = 0
         \<and> transcription s1 = transcription s @ INTERRUPTED_MARK
         \<and> onmessage t' msg' (run later s1) = Inr s2
         \<and> audioSourcesRef s2 = [src]
         \<and> startTime src = t'
         \<and> t \<le> startTime src"
proof -
  define s1 where "s1 = s\<lparr>stopped := stopped s @ map node_id (audioSourcesRef s),
      audioSourcesRef := [], nextStartTimeRef := 0,
      transcription := transcription s @ INTERRUPTED_MARK\<rparr>"
  define s2 where "s2 = transcript_part msg' (scheduleAudio t' clip (run later s1))"
  define src where "src = \<lparr>node_id = created (run later s1), buffer = clip, startTime = t'\<rparr>"
  have live: "isMounted s" "outputContextRef s"
    unfolding assms(1) by (rule connected)+
  have m1: "onmessage t msg s = Inr s1"
    unfolding s1_def by (rule onmessage_interrupted [OF live(1) assms(2)])
  have live1: "isMounted (run later s1)" "outputContextRef (run later s1)"
    using live by (simp_all add: run_keeps s1_def)
  have idle: "audioSourcesRef (run later s1) = []" "nextStartTimeRef (run later s1) = 0"
    using idle_run [OF assms(5), of s1] by (simp_all add: s1_def)
  have m2: "onmessage t' msg' (run later s1) = Inr s2"
    unfolding s2_def by (rule onmessage_audio [OF live1 assms(6-9)])
  have "0 \<le> t'" using assms(3,4) by simp
  then have q: "audioSourcesRef s2 = [src]"
    by (simp add: s2_def src_def scheduleAudio_fields idle)
  show ?thesis
    using m1 m2 q assms(4)
    by (intro exI [of _ s1] exI [of _ s2] exI [of _ src]) (simp add: s1_def src_def)
qed

theorem interruption_clears_schedule_witness:
  "\<exists>src. audioSourcesRef
            (run [Message 1 (audio_payload ex_audio), Message 2 interruption,
                  Message 2 (transcript_fragment ''hold''), Ended 0,
                  Message 3 (audio_payload ex_audio)] opened) = [src]
        \<and> startTime src = 3"
proof -
  define s where "s = run [Message 1 (audio_payload ex_audio)] opened"
  have i: "interrupted interruption" by (simp add: interruption_def)
  have l: "list_all schedules_nothing [Message 2 (transcript_fragment ''hold''), Ended 0]"
    by (simp add: transcript_fragment_def)
  from interruption_clears_schedule
         [OF s_def i _ _ l ex_audio_decodes(2,1,3,4), of 2 3]
  obtain s1 s2 src where
    h: "onmessage 2 interruption s = Inr s1"
       "onmessage 3 (audio_payload ex_audio)
          (run [Message 2 (transcript_fragment ''hold''), Ended 0] s1) = Inr s2"
       "audioSourcesRef s2 = [src]" "startTime src = 3"
    by auto
  have "run [Message 1 (audio_payload ex_audio), Message 2 interruption,
             Message 2 (transcript_fragment ''hold''), Ended 0,
             Message 3 (audio_payload ex_audio)] opened
        = step (Message 3 (audio_payload ex_audio))
            (run [Message 2 (transcript_fragment ''hold''), Ended 0]
               (step (Message 2 interruption) s))"
    by (simp add: s_def)
  also have "\<dots> = s2" using h(1,2) by simp
  finally show ?thesis using h(3,4) by auto
qed

text \<open>
  C5 as stated fails in one point: the cursor is not reset to the current time but to 0.
  After an interruption handled at clock reading 5 the cursor is 0.
\<close>

theorem interruption_cursor_is_zero:
  "nextStartTimeRef (step (Message 5 interruption) opened) = 0
   \<and> nextStartTimeRef (step (Message 5 interruption) opened) \<noteq> 5"
  by (simp add: onmessage_interruption opened_def)

section \<open>Batch analysis\<close>

lemma ex_parse: "json_parse ex_response = Inr (JObject [(''summary'', JString ''a quiet room'')])"
  unfolding ex_response_def by code_simp

lemma ex_parse_empty: "json_parse ''{}'' = Inr (JObject [])"
  by code_simp

text \<open>
  C2 (amended). \<^verbatim>\<open>analyzeIncident\<close> fails exactly when the API key is empty, the audio
  cannot be read, the service call fails (its error is passed on as it is), the service
  returns no text or an empty text, or the text does not parse as JSON (the parser's
  error is passed on). In every other case it returns what \<^verbatim>\<open>JSON.parse\<close> returned for
  the text, whatever its shape: the seven fields are not checked.
\<close>

theorem analyzeIncident_outcomes:
  "(analyzeIncident P audioBlob key = Inl e \<longleftrightarrow>
       (key = [] \<and> e = ApiKeyMissing)
     \<or> (key \<noteq> [] \<and> blobToBase64 P audioBlob = Inl e)
     \<or> (key \<noteq> [] \<and> (\<exists>b64. blobToBase64 P audioBlob = Inr b64
            \<and> generateContent P (mimeType audioBlob) b64 = Inl e))
     \<or> (key \<noteq> [] \<and> e = NoResponseText \<and> (\<exists>b64 r. blobToBase64 P audioBlob = Inr b64
            \<and> generateContent P (mimeType audioBlob) b64 = Inr r \<and> truthy r = None))
     \<or> (key \<noteq> [] \<and> (\<exists>b64 r t. blobToBase64 P audioBlob = Inr b64
            \<and> generateContent P (mimeType audioBlob) b64 = Inr r \<and> truthy r = Some t
            \<and> JSON_parse P t = Inl e)))
   \<and> (analyzeIncident P audioBlob key = Inr v \<longleftrightarrow>
       key \<noteq> [] \<and> (\<exists>b64 r t. blobToBase64 P audioBlob = Inr b64
            \<and> generateContent P (mimeType audioBlob) b64 = Inr r \<and> truthy r = Some t
            \<and> JSON_parse P t = Inr v))"
  by (auto simp: analyzeIncident_def split: sum.splits option.splits)

theorem analyzeIncident_outcomes_witness:
  "analyzeIncident (ex_platform None) (ex_payload 2) ''key'' = Inl NoResponseText
   \<and> analyzeIncident (ex_platform (Some ''{}'')) (ex_payload 2) ''key'' = Inr (JObject [])"
proof -
  have b: "blobToBase64 (ex_platform r) (ex_payload 2) = Inr (split_comma_1 (dataURL (ex_payload 2)))" for r
    by (simp add: blobToBase64_def ex_platform_def)
  have g: "generateContent (ex_platform r) m d = Inr r" for r m d
    by (simp add: ex_platform_def)
  have p: "JSON_parse (ex_platform r) ''{}'' = Inr (JObject [])" for r
    by (simp add: ex_platform_def ex_parse_empty)
  have one: "analyzeIncident (ex_platform None) (ex_payload 2) ''key'' = Inl NoResponseText"
    using analyzeIncident_outcomes [of "ex_platform None" "ex_payload 2" "''key''" NoResponseText]
    by (simp add: b g)
  have two: "analyzeIncident (ex_platform (Some ''{}'')) (ex_payload 2) ''key'' = Inr (JObject [])"
    using analyzeIncident_outcomes
            [of "ex_platform (Some ''{}'')" "ex_payload 2" "''key''" _ "JObject []"]
    by (simp add: b g p)
  show ?thesis using one two by simp
qed

text \<open>
  C2 as stated fails where it says that a response missing a required field fails. The
  response text \<^verbatim>\<open>{"summary": "a quiet room"}\<close> is valid JSON with six of the seven
  fields missing, and the call returns the one-field object; for \<^verbatim>\<open>{}\<close> it returns the
  empty object. It also fails in "exactly when": an empty API key fails the call before
  any request is made.
\<close>

theorem analyzeIncident_partial_result:
  "analyzeIncident (ex_platform (Some ex_response)) (ex_payload 2) ''key''
     = Inr (JObject [(''summary'', JString ''a quiet room'')])
   \<and> \<not> is_IncidentAnalysis (JObject [(''summary'', JString ''a quiet room'')])
   \<and> analyzeIncident (ex_platform (Some ''{}'')) (ex_payload 2) ''key'' = Inr (JObject [])
   \<and> \<not> is_IncidentAnalysis (JObject [])
   \<and> analyzeIncident (ex_platform (Some ex_response)) (ex_payload 2) [] = Inl ApiKeyMissing"
proof -
  have ne: "ex_response \<noteq> []"
    by (simp add: ex_response_def)
  show ?thesis
    by (simp add: analyzeIncident_def ex_platform_def blobToBase64_def ne ex_parse ex_parse_empty
        is_IncidentAnalysis_def json_field_def)
qed

end
